theory Spec2Isabelle
  imports Main "HOL-Library.Word"
begin

unbundle bit_operations_syntax

section \<open>Buffers and numbers\<close>

text \<open>
  A Node \<open>Buffer\<close> is a list of bytes. The numbers that the codec handles are doubles
  whose values are integers; they are modelled as \<open>int\<close> with the arithmetic of
  integers, and \<open>NaN\<close> (what arithmetic on \<open>undefined\<close> gives) as \<open>None\<close> of
  \<open>int option\<close>. The arithmetic of doubles gives the result of the arithmetic of
  integers whenever that result is the value of a double; the subsection on doubles below
  shows that this is so wherever \<open>DSU_littleEndian2number\<close> decodes what
  \<open>DSU_number2buffer\<close> made of a double, or a buffer of at most six bytes. A read
  \<open>buffer[i]\<close> beyond the end gives \<open>undefined\<close>; a write \<open>buffer[i] = v\<close> beyond
  the end is dropped, which is what \<open>xs[i := v]\<close> does, and the stored value is reduced
  modulo 256.
\<close>

type_synonym byte = "8 word"
type_synonym buffer = "byte list"

definition alloc :: "nat \<Rightarrow> buffer" where
  "alloc sz = replicate sz 0"

definition ToUint8 :: "int \<Rightarrow> byte" where
  "ToUint8 n = word_of_int n"

text \<open>The remainder operator \<open>%\<close> truncates towards zero: the sign is the dividend's.\<close>

definition js_rem :: "int \<Rightarrow> int \<Rightarrow> int" where
  "js_rem a b = sgn a * (\<bar>a\<bar> mod \<bar>b\<bar>)"

text \<open>\<open>buffer[i]\<close> as a number, \<open>undefined\<close> beyond the end.\<close>

definition byte_at :: "buffer \<Rightarrow> nat \<Rightarrow> int option" where
  "byte_at buffer i = (if i < length buffer then Some (uint (buffer ! i)) else None)"

text \<open>\<open>buffer.slice(start, end)\<close>, both indices clamped to the length.\<close>

definition slice :: "buffer \<Rightarrow> nat \<Rightarrow> nat \<Rightarrow> buffer" where
  "slice buffer start stop = drop start (take stop buffer)"

text \<open>
  \<open>source.copy(target, targetStart)\<close>: as many bytes as fit are written into the target
  from \<open>targetStart\<close> on; the target keeps its length.
\<close>

definition copy :: "buffer \<Rightarrow> buffer \<Rightarrow> nat \<Rightarrow> buffer" where
  "copy source target targetStart =
     (let n = min (length source) (length target - targetStart)
      in take targetStart target @ take n source @ drop (targetStart + n) target)"

subsection \<open>DSU_number2buffer and DSU_littleEndian2number\<close>

function number2buffer_loop :: "nat \<Rightarrow> nat \<Rightarrow> int \<Rightarrow> buffer \<Rightarrow> buffer" where
  "number2buffer_loop i sz n littleEndian =
     (if i < sz
      then number2buffer_loop (i + 1) sz (n div 256) (littleEndian[i := ToUint8 (js_rem n 256)])
      else littleEndian)"
  by pat_completeness auto
termination
  by (relation "measure (\<lambda>(i, sz, n, littleEndian). sz - i)") auto

definition DSU_number2buffer :: "int \<Rightarrow> nat \<Rightarrow> buffer" where
  "DSU_number2buffer n sz = number2buffer_loop 0 sz n (alloc sz)"

function littleEndian2number_loop :: "buffer \<Rightarrow> nat \<Rightarrow> int \<Rightarrow> int \<Rightarrow> int" where
  "littleEndian2number_loop buffer i n multiplier =
     (if i < length buffer
      then littleEndian2number_loop buffer (i + 1)
             (n + uint (buffer ! i) * multiplier) (multiplier * 256)
      else n)"
  by pat_completeness auto
termination
  by (relation "measure (\<lambda>(buffer, i, n, multiplier). length buffer - i)") auto

definition DSU_littleEndian2number :: "buffer \<Rightarrow> int" where
  "DSU_littleEndian2number buffer = littleEndian2number_loop buffer 0 0 1"

text \<open>The four bytes of a 32-bit word, least significant first.\<close>

definition word32_le :: "32 word \<Rightarrow> buffer" where
  "word32_le w = [ucast w, ucast (drop_bit 8 w), ucast (drop_bit 16 w), ucast (drop_bit 24 w)]"

subsection \<open>Hexadecimal text\<close>

text \<open>
  \<open>buffer.toString("hex")\<close> writes two lower-case digits for each byte, and
  \<open>Buffer.from(text, "hex")\<close> reads pairs of digits back, up to the first pair that is
  not one. \<open>number.toString(16)\<close> writes a number without leading zeros, and \<open>NaN\<close>
  as the text \<open>NaN\<close>.
\<close>

definition hex_digit :: "nat \<Rightarrow> char" where
  "hex_digit d = ''0123456789abcdef'' ! d"

definition hex_val :: "char \<Rightarrow> nat option" where
  "hex_val c = map_of (zip ''0123456789abcdefABCDEF'' ([0..<16] @ [10..<16])) c"

definition toString_hex :: "buffer \<Rightarrow> string" where
  "toString_hex buffer =
     concat (map (\<lambda>b. [hex_digit (unat b div 16), hex_digit (unat b mod 16)]) buffer)"

fun Buffer_from_hex :: "string \<Rightarrow> buffer" where
  "Buffer_from_hex (a # b # rest) =
     (case (hex_val a, hex_val b) of
        (Some h, Some l) \<Rightarrow> word_of_nat (16 * h + l) # Buffer_from_hex rest
      | _ \<Rightarrow> [])"
| "Buffer_from_hex _ = []"

function hex_digits :: "nat \<Rightarrow> string" where
  "hex_digits n =
     (if n < 16 then [hex_digit n] else hex_digits (n div 16) @ [hex_digit (n mod 16)])"
  by pat_completeness auto
termination
  by (relation "measure (\<lambda>n. n)") auto

definition toString16 :: "int option \<Rightarrow> string" where
  "toString16 v =
     (case v of
        None \<Rightarrow> ''NaN''
      | Some n \<Rightarrow> if n < 0 then CHR ''-'' # hex_digits (nat (- n)) else hex_digits (nat n))"

subsection \<open>Arithmetic that may meet \<open>undefined\<close>\<close>

definition num_add :: "int option \<Rightarrow> int option \<Rightarrow> int option" where
  "num_add a b = (case (a, b) of (Some x, Some y) \<Rightarrow> Some (x + y) | _ \<Rightarrow> None)"

definition num_mul :: "int option \<Rightarrow> int \<Rightarrow> int option" where
  "num_mul a k = (case a of Some x \<Rightarrow> Some (x * k) | None \<Rightarrow> None)"

text \<open>\<open>buffer[i] = v\<close> where \<open>v\<close> may be \<open>undefined\<close>, which a byte array stores as 0.\<close>

definition put :: "buffer \<Rightarrow> nat \<Rightarrow> int option \<Rightarrow> buffer" where
  "put buffer i v = buffer[i := (case v of Some n \<Rightarrow> ToUint8 n | None \<Rightarrow> 0)]"

section \<open>The server\<close>

datatype MessageTypes =
    ProtocolVersionInformation
  | ConnectedControllers
  | ControllerData
  | ControllerMotor
  | Rumble
  | Unknown

record DSUHeader =
  dsuType :: buffer
  version :: "int option"
  packetLength :: "int option"
  CRC32 :: string
  senderID :: "int option"

text \<open>
  The nested objects of \<open>ControllerState\<close> are flattened: the field \<open>DPAD.LEFT\<close> is
  \<open>DPAD_LEFT\<close>, and so on. The accelerometer and gyroscope numbers are only ever handed to
  \<open>writeFloatLE\<close>; their type is left open as \<open>'f\<close>.
\<close>

record 'f ControllerState =
  connected :: bool
  DPAD_LEFT :: bool
  DPAD_DOWN :: bool
  DPAD_RIGHT :: bool
  DPAD_UP :: bool
  KEYS_OPTIONS :: bool
  KEYS_R3 :: bool
  KEYS_L3 :: bool
  KEYS_SHARE :: bool
  KEYS_HOME :: bool
  LSTICK_X :: int
  LSTICK_Y :: int
  RSTICK_X :: int
  RSTICK_Y :: int
  ANALOG_DPAD_LEFT :: int
  ANALOG_DPAD_DOWN :: int
  ANALOG_DPAD_RIGHT :: int
  ANALOG_DPAD_UP :: int
  ANALOG_KEYS_Y :: int
  ANALOG_KEYS_B :: int
  ANALOG_KEYS_A :: int
  ANALOG_KEYS_X :: int
  ANALOG_KEYS_R1 :: int
  ANALOG_KEYS_L1 :: int
  ANALOG_KEYS_R2 :: int
  ANALOG_KEYS_L2 :: int
  MOTION_TIMESTAMP :: int
  MOTION_ACCEL_X :: 'f
  MOTION_ACCEL_Y :: 'f
  MOTION_ACCEL_Z :: 'f
  MOTION_GYRO_PITCH :: 'f
  MOTION_GYRO_YAW :: 'f
  MOTION_GYRO_ROLL :: 'f

text \<open>
  The state of a \<open>DSUServer\<close> that the codec and the handler use: the sender identifier
  and the array of controller states. An element of an array may be missing
  (\<open>undefined\<close>): the array is a list of options. The socket and the port belong to the
  transport.
\<close>

record 'f DSUServer =
  DATA_CONTROLLERID :: buffer
  DATA_controllerStates :: "'f ControllerState option list"

datatype error = Error string | TypeError

text \<open>
  \<open>array[i]\<close> and \<open>array[i] = v\<close>: a read outside gives \<open>undefined\<close>, a write
  beyond the end extends the array.
\<close>

definition array_get :: "'a option list \<Rightarrow> int \<Rightarrow> 'a option" where
  "array_get xs i = (if 0 \<le> i \<and> nat i < length xs then xs ! nat i else None)"

definition array_set :: "'a option list \<Rightarrow> nat \<Rightarrow> 'a \<Rightarrow> 'a option list" where
  "array_set xs i v =
     (if i < length xs then xs[i := Some v]
      else xs @ replicate (i - length xs) None @ [Some v])"

definition DSU_dummyState :: "'f::zero ControllerState" where
  "DSU_dummyState =
     \<lparr> connected = False,
       DPAD_LEFT = False, DPAD_DOWN = False, DPAD_RIGHT = False, DPAD_UP = False,
       KEYS_OPTIONS = False, KEYS_R3 = False, KEYS_L3 = False, KEYS_SHARE = False,
       KEYS_HOME = False,
       LSTICK_X = 0, LSTICK_Y = 0, RSTICK_X = 0, RSTICK_Y = 0,
       ANALOG_DPAD_LEFT = 0, ANALOG_DPAD_DOWN = 0, ANALOG_DPAD_RIGHT = 0, ANALOG_DPAD_UP = 0,
       ANALOG_KEYS_Y = 0, ANALOG_KEYS_B = 0, ANALOG_KEYS_A = 0, ANALOG_KEYS_X = 0,
       ANALOG_KEYS_R1 = 0, ANALOG_KEYS_L1 = 0, ANALOG_KEYS_R2 = 0, ANALOG_KEYS_L2 = 0,
       MOTION_TIMESTAMP = 0,
       MOTION_ACCEL_X = 0, MOTION_ACCEL_Y = 0, MOTION_ACCEL_Z = 0,
       MOTION_GYRO_PITCH = 0, MOTION_GYRO_YAW = 0, MOTION_GYRO_ROLL = 0 \<rparr>"

text \<open>
  The constructor: four dummy states, and the identifier that \<open>DSU_generateID\<close> draws at
  random, four bytes, given here as the argument.
\<close>

definition new_DSUServer :: "buffer \<Rightarrow> 'f::zero DSUServer" where
  "new_DSUServer generatedID =
     \<lparr> DATA_CONTROLLERID = generatedID,
       DATA_controllerStates =
         [Some DSU_dummyState, Some DSU_dummyState, Some DSU_dummyState, Some DSU_dummyState] \<rparr>"

subsection \<open>DSU_setControllerState and DSU_setControllersState\<close>

text \<open>
  Both functions return the server as they leave it, next to the error they throw, if
  any. The array given to \<open>DSU_setControllersState\<close> is a \<open>ControllerState[]\<close>:
  a list of states, none of them missing.
\<close>

definition DSU_setControllerState ::
  "'f DSUServer \<Rightarrow> int \<Rightarrow> 'f ControllerState \<Rightarrow> 'f DSUServer \<times> error option" where
  "DSU_setControllerState this index state =
     (if index < 0 \<or> index > 3 then (this, Some (Error ''Invalid controller index''))
      else (this\<lparr>DATA_controllerStates :=
                  array_set (DATA_controllerStates this) (nat index) state\<rparr>, None))"

definition DSU_setControllersState ::
  "'f DSUServer \<Rightarrow> 'f ControllerState list \<Rightarrow> 'f DSUServer \<times> error option" where
  "DSU_setControllersState this state =
     (if length state \<noteq> 4 then (this, Some (Error ''Invalid controller state array length''))
      else (this\<lparr>DATA_controllerStates := map Some state\<rparr>, None))"

subsection \<open>DSU_calcCRC32\<close>

text \<open>
  \<open>crc.buf\<close> is the checksum of the package \<open>crc-32\<close>, which returns a signed 32-bit
  number. It is a parameter \<open>crc_buf\<close> of the model, a 32-bit word read with \<open>sint\<close>.
  \<open>writeUInt32LE\<close> raises for a value outside \<open>[0, 2^32)\<close>; it is only called from
  \<open>DSU_calcCRC32\<close>, with a value in that range (lemma \<open>sint_to_unsigned\<close>).
  \<open>DSU_calcCRC32\<close> writes into the buffer it is given: the model returns that buffer
  next to the text.
\<close>

definition writeUInt32LE :: "buffer \<Rightarrow> int \<Rightarrow> nat \<Rightarrow> buffer" where
  "writeUInt32LE buffer v offset =
     buffer[offset := ToUint8 v, offset + 1 := ToUint8 (v div 2 ^ 8),
            offset + 2 := ToUint8 (v div 2 ^ 16), offset + 3 := ToUint8 (v div 2 ^ 24)]"

definition DSU_calcCRC32 :: "(buffer \<Rightarrow> 32 word) \<Rightarrow> buffer \<Rightarrow> buffer \<times> string" where
  "DSU_calcCRC32 crc_buf msg0 =
     (let msg = msg0[8 := 0, 9 := 0, 10 := 0, 11 := 0];
          c = sint (crc_buf msg);
          bigInt = c;
          bigInt = (if bigInt < 0 then bigInt + 2 ^ 32 else bigInt);
          littleEndian = alloc 4;
          littleEndian = writeUInt32LE littleEndian bigInt 0
      in (msg, toString_hex littleEndian))"

subsection \<open>DSU_messageType2buffer, DSU_generateMessage and DSU_parseMessage\<close>

definition DSU_messageType2buffer :: "MessageTypes \<Rightarrow> buffer" where
  "DSU_messageType2buffer type =
     (case type of
        ProtocolVersionInformation \<Rightarrow> [0x00, 0x00, 0x10, 0x00]
      | ConnectedControllers \<Rightarrow> [0x01, 0x00, 0x10, 0x00]
      | ControllerData \<Rightarrow> [0x02, 0x00, 0x10, 0x00]
      | ControllerMotor \<Rightarrow> DSU_number2buffer 110001 4
      | Rumble \<Rightarrow> DSU_number2buffer 110002 4
      | Unknown \<Rightarrow> DSU_number2buffer 0 4)"

text \<open>The bytes of the text \<open>DSUS\<close>.\<close>

definition DSUS :: buffer where
  "DSUS = [0x44, 0x53, 0x55, 0x53]"

definition DSU_generateMessage ::
  "(buffer \<Rightarrow> 32 word) \<Rightarrow> 'f DSUServer \<Rightarrow> MessageTypes \<Rightarrow> buffer \<Rightarrow> buffer" where
  "DSU_generateMessage crc_buf this type data =
     (let headerConfig_version = DSU_number2buffer 1001 2;
          headerConfig_senderID = DATA_CONTROLLERID this;
          header = alloc 16;
          header = copy DSUS header 0;
          header = copy headerConfig_version header 4;
          header = copy headerConfig_senderID header 12;
          messageTypeBuffer = DSU_messageType2buffer type;
          result = header @ messageTypeBuffer @ data;
          packetLength = DSU_number2buffer (int (length result) - int (length header)) 2;
          result = copy packetLength result 6;
          (result, CRC32) = DSU_calcCRC32 crc_buf result;
          result = copy (Buffer_from_hex CRC32) result 8
      in result)"

record parsed =
  header :: DSUHeader
  messageType :: MessageTypes
  message :: buffer

text \<open>
  The text \<open>messageTypeHex_\<close> that \<open>DSU_parseMessage\<close> makes of the four bytes
  after the header, and its lookup in the object of the five kinds. The text is made of
  hexadecimal digits, or is \<open>NaN\<close>: it names none of the properties that every
  object inherits, so the lookup is one in the five keys.
\<close>

definition messageTypeHex :: "buffer \<Rightarrow> string" where
  "messageTypeHex messageTypeBuffer =
     toString16
       (num_add (num_add (num_add (byte_at messageTypeBuffer 0)
          (num_mul (byte_at messageTypeBuffer 1) 256))
          (num_mul (num_mul (byte_at messageTypeBuffer 2) 256) 256))
          (num_mul (num_mul (num_mul (byte_at messageTypeBuffer 3) 256) 256) 256))"

definition messageType_of :: "string \<Rightarrow> MessageTypes" where
  "messageType_of key =
     (case map_of
        [(''100000'', ProtocolVersionInformation),
         (''100001'', ConnectedControllers),
         (''100002'', ControllerData),
         (''110001'', ControllerMotor),
         (''110002'', Rumble)] key of
        Some t \<Rightarrow> t
      | None \<Rightarrow> Unknown)"

text \<open>
  \<open>DSU_parseMessage\<close> returns the caller's buffer as \<open>DSU_calcCRC32\<close> leaves it, next
  to the error thrown or the parsed message. The header fields are read before the
  checksum is computed; the body is a view of the buffer, read here after it. The text that
  \<open>toString()\<close> makes of the first four bytes is kept as these bytes.
\<close>

definition DSU_parseMessage ::
  "(buffer \<Rightarrow> 32 word) \<Rightarrow> buffer \<Rightarrow> buffer \<times> (error + parsed)" where
  "DSU_parseMessage crc_buf msg0 =
     (let headerBuffer = slice msg0 0 16;
          messageTypeBuffer = slice msg0 16 20;
          messageType = messageType_of (messageTypeHex messageTypeBuffer);
          headerData = \<lparr>
            dsuType = slice headerBuffer 0 4,
            version = num_add (byte_at headerBuffer 4) (num_mul (byte_at headerBuffer 5) 256),
            packetLength = num_add (byte_at headerBuffer 6) (num_mul (byte_at headerBuffer 7) 256),
            CRC32 = toString_hex (slice headerBuffer 8 12),
            senderID =
              num_add (num_add (num_add (byte_at headerBuffer 12)
                (num_mul (byte_at headerBuffer 13) 256))
                (num_mul (num_mul (byte_at headerBuffer 14) 256) 256))
                (num_mul (num_mul (num_mul (byte_at headerBuffer 15) 256) 256) 256) \<rparr>;
          actualSize = int (length msg0) - int (length headerBuffer);
          (msg, calculatedCRC32) = DSU_calcCRC32 crc_buf msg0;
          messageBuffer = slice msg 20 (length msg)
      in if packetLength headerData \<noteq> Some actualSize
         then (msg, Inl (Error ''Packet length mismatch''))
         else if CRC32 headerData \<noteq> calculatedCRC32
         then (msg, Inl (Error (''CRC32 mismatch Expected: '' @ CRC32 headerData
                                 @ '' Actual: '' @ calculatedCRC32)))
         else (msg, Inr \<lparr> header = headerData, messageType = messageType,
                          message = messageBuffer \<rparr>))"

subsection \<open>DSU_createControllerData, DSU_getControllerState and DSU_state2buffer\<close>

text \<open>
  \<open>Buffer.from(buffer, 6)\<close> copies the buffer it is given; the second argument does not
  apply to a buffer, so \<open>MACADRESS\<close> has the length of the identifier. The slot may be
  \<open>undefined\<close> when the handler reads it beyond the end of a body.
\<close>

definition DSU_createControllerData :: "'f DSUServer \<Rightarrow> int option \<Rightarrow> bool \<Rightarrow> buffer" where
  "DSU_createControllerData this slot enabled =
     (let response = alloc 12;
          response = put response 0 slot
      in if \<not> enabled then response
         else
           let response = response[1 := 0x02];
               response = response[2 := 0x02];
               response = response[3 := 0x01];
               response = response[10 := 0x05];
               MACADRESS = DATA_CONTROLLERID this;
               MACADRESS = put MACADRESS 5 slot;
               response = copy MACADRESS response 4;
               response = response[11 := 0]
           in response)"

definition DSU_getControllerState :: "'f DSUServer \<Rightarrow> int \<Rightarrow> 'f ControllerState option" where
  "DSU_getControllerState this index = array_get (DATA_controllerStates this) index"

definition BOOL2BIT :: "bool \<Rightarrow> int" where
  "BOOL2BIT bool = (if bool then 0x01 else 0x00)"

function BITMASK2BUFFER_loop :: "int list \<Rightarrow> nat \<Rightarrow> int \<Rightarrow> int" where
  "BITMASK2BUFFER_loop bitmask i result =
     (if i < length bitmask
      then BITMASK2BUFFER_loop bitmask (i + 1) (result + bitmask ! i * 2 ^ i)
      else result)"
  by pat_completeness auto
termination
  by (relation "measure (\<lambda>(bitmask, i, result). length bitmask - i)") auto

definition BITMASK2BUFFER :: "int list \<Rightarrow> buffer" where
  "BITMASK2BUFFER bitmask = DSU_number2buffer (BITMASK2BUFFER_loop bitmask 0 0) 1"

text \<open>
  \<open>writeFloatLE\<close> stores the IEEE-754 single-precision pattern of a number, least
  significant byte first. The pattern is a parameter \<open>float_bits\<close> of the model.
\<close>

definition float2buffer :: "('f \<Rightarrow> 32 word) \<Rightarrow> 'f \<Rightarrow> buffer" where
  "float2buffer float_bits n = word32_le (float_bits n)"

text \<open>
  The second argument of \<open>DSU_state2buffer\<close> is optional: \<open>None\<close> is the call with the
  slot alone, which takes the state from the store. Reading \<open>connected\<close> of a state
  that is \<open>undefined\<close> throws a \<open>TypeError\<close>.
\<close>

definition DSU_state2buffer ::
  "('f \<Rightarrow> 32 word) \<Rightarrow> 'f DSUServer \<Rightarrow> int \<Rightarrow> 'f ControllerState option \<Rightarrow> error + buffer" where
  "DSU_state2buffer float_bits this slot state_arg =
     (case (case state_arg of None \<Rightarrow> DSU_getControllerState this slot | Some s \<Rightarrow> Some s) of
        None \<Rightarrow> Inl TypeError
      | Some state \<Rightarrow>
          let CONTROLLER_INFO = DSU_createControllerData this (Some slot) (connected state);
              CONTROLLER_DATA = alloc 80;
              CONTROLLER_DATA = copy CONTROLLER_INFO CONTROLLER_DATA 0;
              CONTROLLER_DATA = CONTROLLER_DATA[11 := (if connected state then 0x01 else 0x00)];
              CONTROLLER_DATA = put CONTROLLER_DATA 12 (byte_at (DATA_CONTROLLERID this) 0);
              CONTROLLER_DATA = put CONTROLLER_DATA 13 (byte_at (DATA_CONTROLLERID this) 1);
              CONTROLLER_DATA = put CONTROLLER_DATA 14 (byte_at (DATA_CONTROLLERID this) 2);
              CONTROLLER_DATA = put CONTROLLER_DATA 15 (Some slot);
              CONTROLLER_DATA = put CONTROLLER_DATA 16 (byte_at (BITMASK2BUFFER
                [BOOL2BIT (DPAD_LEFT state), BOOL2BIT (DPAD_DOWN state),
                 BOOL2BIT (DPAD_RIGHT state), BOOL2BIT (DPAD_UP state),
                 BOOL2BIT (KEYS_OPTIONS state), BOOL2BIT (KEYS_R3 state),
                 BOOL2BIT (KEYS_L3 state), BOOL2BIT (KEYS_SHARE state)]) 0);
              CONTROLLER_DATA = put CONTROLLER_DATA 18
                (byte_at (DSU_number2buffer (BOOL2BIT (KEYS_HOME state)) 1) 0);
              CONTROLLER_DATA = copy (DSU_number2buffer (LSTICK_X state) 1) CONTROLLER_DATA 20;
              CONTROLLER_DATA = copy (DSU_number2buffer (LSTICK_Y state) 1) CONTROLLER_DATA 21;
              CONTROLLER_DATA = copy (DSU_number2buffer (RSTICK_X state) 1) CONTROLLER_DATA 22;
              CONTROLLER_DATA = copy (DSU_number2buffer (RSTICK_Y state) 1) CONTROLLER_DATA 23;
              CONTROLLER_DATA = copy (DSU_number2buffer (ANALOG_DPAD_LEFT state) 1) CONTROLLER_DATA 24;
              CONTROLLER_DATA = copy (DSU_number2buffer (ANALOG_DPAD_DOWN state) 1) CONTROLLER_DATA 25;
              CONTROLLER_DATA = copy (DSU_number2buffer (ANALOG_DPAD_RIGHT state) 1) CONTROLLER_DATA 26;
              CONTROLLER_DATA = copy (DSU_number2buffer (ANALOG_DPAD_UP state) 1) CONTROLLER_DATA 27;
              CONTROLLER_DATA = copy (DSU_number2buffer (ANALOG_KEYS_Y state) 1) CONTROLLER_DATA 28;
              CONTROLLER_DATA = copy (DSU_number2buffer (ANALOG_KEYS_B state) 1) CONTROLLER_DATA 29;
              CONTROLLER_DATA = copy (DSU_number2buffer (ANALOG_KEYS_A state) 1) CONTROLLER_DATA 30;
              CONTROLLER_DATA = copy (DSU_number2buffer (ANALOG_KEYS_X state) 1) CONTROLLER_DATA 31;
              CONTROLLER_DATA = copy (DSU_number2buffer (ANALOG_KEYS_R1 state) 1) CONTROLLER_DATA 32;
              CONTROLLER_DATA = copy (DSU_number2buffer (ANALOG_KEYS_L1 state) 1) CONTROLLER_DATA 33;
              CONTROLLER_DATA = copy (DSU_number2buffer (ANALOG_KEYS_R2 state) 1) CONTROLLER_DATA 34;
              CONTROLLER_DATA = copy (DSU_number2buffer (ANALOG_KEYS_L2 state) 1) CONTROLLER_DATA 35;
              CONTROLLER_DATA = copy (DSU_number2buffer (MOTION_TIMESTAMP state) 8) CONTROLLER_DATA 48;
              CONTROLLER_DATA = copy (float2buffer float_bits (MOTION_ACCEL_X state)) CONTROLLER_DATA 56;
              CONTROLLER_DATA = copy (float2buffer float_bits (MOTION_ACCEL_Y state)) CONTROLLER_DATA 60;
              CONTROLLER_DATA = copy (float2buffer float_bits (MOTION_ACCEL_Z state)) CONTROLLER_DATA 64;
              CONTROLLER_DATA = copy (float2buffer float_bits (MOTION_GYRO_PITCH state)) CONTROLLER_DATA 68;
              CONTROLLER_DATA = copy (float2buffer float_bits (MOTION_GYRO_YAW state)) CONTROLLER_DATA 72;
              CONTROLLER_DATA = copy (float2buffer float_bits (MOTION_GYRO_ROLL state)) CONTROLLER_DATA 76
          in Inr CONTROLLER_DATA)"

subsection \<open>UDP_DefaultHandler\<close>

text \<open>
  What one call of the handler leaves behind: the server, the caller's datagram, the
  datagrams handed to \<open>send\<close> in the order of the calls, and the error that the
  \<open>catch\<close> clause caught, if one was thrown. What the handler prints is not modelled.
\<close>

record 'f handled =
  server :: "'f DSUServer"
  datagram :: buffer
  sent :: "buffer list"
  caught :: "error option"

datatype SELECTION_TYPE = SLOT | MAC | UNKNOWN

function ConnectedControllers_loop ::
  "(buffer \<Rightarrow> 32 word) \<Rightarrow> 'f DSUServer \<Rightarrow> buffer \<Rightarrow> int \<Rightarrow> nat \<Rightarrow> buffer list
     \<Rightarrow> buffer list \<times> error option" where
  "ConnectedControllers_loop crc_buf this body slotCount2report slot out =
     (if int slot < slotCount2report
      then (case DSU_getControllerState this (int slot) of
              None \<Rightarrow> (out, Some TypeError)
            | Some state \<Rightarrow>
                ConnectedControllers_loop crc_buf this body slotCount2report (slot + 1)
                  (out @ [DSU_generateMessage crc_buf this ConnectedControllers
                            (DSU_createControllerData this (byte_at body (4 + slot))
                               (connected state))]))
      else (out, None))"
  by pat_completeness auto
termination
  by (relation "measure (\<lambda>(crc_buf, this, body, slotCount2report, slot, out).
        nat slotCount2report - slot)") auto

definition UDP_DefaultHandler ::
  "(buffer \<Rightarrow> 32 word) \<Rightarrow> ('f \<Rightarrow> 32 word) \<Rightarrow> 'f DSUServer \<Rightarrow> buffer \<Rightarrow> 'f handled" where
  "UDP_DefaultHandler crc_buf float_bits this msg0 =
     (case DSU_parseMessage crc_buf msg0 of
        (msg, Inl e) \<Rightarrow> \<lparr> server = this, datagram = msg, sent = [], caught = Some e \<rparr>
      | (msg, Inr m) \<Rightarrow>
          (case messageType m of
             ConnectedControllers \<Rightarrow>
               let slotCount2report = DSU_littleEndian2number (slice (message m) 0 4);
                   (out, e) = ConnectedControllers_loop crc_buf this (message m)
                                slotCount2report 0 []
               in \<lparr> server = this, datagram = msg, sent = out, caught = e \<rparr>
           | ControllerData \<Rightarrow>
               let SELECTION_TYPE =
                     (if byte_at (message m) 0 = Some 0x01 then SLOT
                      else if byte_at (message m) 0 = Some 0x02 then MAC
                      else UNKNOWN)
               in if SELECTION_TYPE = UNKNOWN
                  then \<lparr> server = this, datagram = msg, sent = [], caught = None \<rparr>
                  else
                    let CONTROLLER_INDEX =
                          (if SELECTION_TYPE = SLOT then byte_at (message m) 1
                           else if SELECTION_TYPE = MAC then byte_at (message m) 7
                           else None)
                    in (case CONTROLLER_INDEX of
                          None \<Rightarrow> \<lparr> server = this, datagram = msg, sent = [], caught = None \<rparr>
                        | Some index \<Rightarrow>
                            (case DSU_state2buffer float_bits this index None of
                               Inl e \<Rightarrow>
                                 \<lparr> server = this, datagram = msg, sent = [], caught = Some e \<rparr>
                             | Inr payload \<Rightarrow>
                                 \<lparr> server = this, datagram = msg,
                                   sent = [DSU_generateMessage crc_buf this ControllerData payload],
                                   caught = None \<rparr>))
           | _ \<Rightarrow> \<lparr> server = this, datagram = msg, sent = [], caught = None \<rparr>))"

section \<open>Functions used to state the properties\<close>

text \<open>The digits of a number in base 256, least significant first.\<close>

primrec le_val :: "buffer \<Rightarrow> int" where
  "le_val [] = 0"
| "le_val (b # bs) = uint b + 256 * le_val bs"

text \<open>
  The numbers of the program are doubles. An integer is the value of a double when it is
  an integer of at most 53 bits times a power of two (the exponent range is not reached
  by the numbers met here): when its odd part is below \<open>2^53\<close>. An operation of the
  program whose exact result is such an integer returns that result.
\<close>

function odd_part :: "int \<Rightarrow> int" where
  "odd_part n = (if n = 0 \<or> odd n then n else odd_part (n div 2))"
  by pat_completeness auto
termination
  by (relation "measure (\<lambda>n. nat \<bar>n\<bar>)") auto

definition double_exact :: "int \<Rightarrow> bool" where
  "double_exact n \<longleftrightarrow> \<bar>odd_part n\<bar> < 2 ^ 53"

text \<open>
  The loop of \<open>DSU_littleEndian2number\<close>, returning whether each product, each sum and
  each multiplier that it computes is the value of a double.
\<close>

function littleEndian2number_exact :: "buffer \<Rightarrow> nat \<Rightarrow> int \<Rightarrow> int \<Rightarrow> bool" where
  "littleEndian2number_exact buffer i n multiplier =
     (if i < length buffer
      then double_exact (uint (buffer ! i) * multiplier) \<and>
           double_exact (n + uint (buffer ! i) * multiplier) \<and>
           double_exact (multiplier * 256) \<and>
           littleEndian2number_exact buffer (i + 1)
             (n + uint (buffer ! i) * multiplier) (multiplier * 256)
      else True)"
  by pat_completeness auto
termination
  by (relation "measure (\<lambda>(buffer, i, n, multiplier). length buffer - i)") auto

text \<open>The number that a text of hexadecimal digits writes.\<close>

definition hex_value :: "string \<Rightarrow> nat" where
  "hex_value s = foldl (\<lambda>a c. 16 * a + (case hex_val c of Some d \<Rightarrow> d | None \<Rightarrow> 0)) 0 s"

text \<open>The buffer with the checksum field, bytes 8 to 11, set to zero.\<close>

definition zero_checksum :: "buffer \<Rightarrow> buffer" where
  "zero_checksum msg = take 8 msg @ replicate (min 4 (length msg - 8)) 0 @ drop 12 msg"

text \<open>
  The checksum of a frame as a number: the signed result of \<open>crc_buf\<close> on the frame
  with its checksum field zeroed, plus \<open>2^32\<close> when it is negative.
\<close>

definition checksum_of :: "(buffer \<Rightarrow> 32 word) \<Rightarrow> buffer \<Rightarrow> int" where
  "checksum_of crc_buf msg =
     (let c = sint (crc_buf (zero_checksum msg)) in if c < 0 then c + 2 ^ 32 else c)"

text \<open>The length field of a datagram, as \<open>DSU_parseMessage\<close> reads it.\<close>

definition declared_length :: "buffer \<Rightarrow> int option" where
  "declared_length msg = num_add (byte_at msg 6) (num_mul (byte_at msg 7) 256)"

text \<open>
  The layout of a frame that \<open>DSU_generateMessage\<close> builds, given the four bytes of
  its checksum field and of its sender field. \<open>pad4\<close> is what the copy of the
  identifier leaves in the sender field: its first four bytes, or all of it and zeros.
\<close>

definition pad4 :: "buffer \<Rightarrow> buffer" where
  "pad4 b = take 4 b @ replicate (4 - length b) 0"

definition frame :: "buffer \<Rightarrow> buffer \<Rightarrow> buffer \<Rightarrow> buffer \<Rightarrow> buffer" where
  "frame checksum sender code body =
     DSUS @ [0xE9, 0x03] @ DSU_number2buffer (int (length code + length body)) 2
       @ checksum @ sender @ code @ body"

text \<open>
  The store as the constructor makes it and as the two setters are meant to keep it:
  four slots, each holding a state.
\<close>

definition four_slots :: "'f DSUServer \<Rightarrow> bool" where
  "four_slots this \<longleftrightarrow>
     length (DATA_controllerStates this) = 4 \<and>
     list_all (\<lambda>s. s \<noteq> None) (DATA_controllerStates this)"

text \<open>
  The frame that the handler sends at step \<open>k\<close> of a connected-controllers query: the
  summary of the slot named by body byte \<open>4 + k\<close>, with the connection flag of slot
  \<open>k\<close> of the store.
\<close>

definition ConnectedControllers_response ::
  "(buffer \<Rightarrow> 32 word) \<Rightarrow> 'f DSUServer \<Rightarrow> buffer \<Rightarrow> nat \<Rightarrow> buffer" where
  "ConnectedControllers_response crc_buf this body k =
     (case DSU_getControllerState this (int k) of
        Some state \<Rightarrow>
          DSU_generateMessage crc_buf this ConnectedControllers
            (DSU_createControllerData this (byte_at body (4 + k)) (connected state))
      | None \<Rightarrow> [])"

section \<open>Examples\<close>

text \<open>
  The examples need a checksum function to put in the place of \<open>crc_buf\<close>. They
  use the usual CRC-32 (reflected polynomial \<open>EDB88320\<close>, start value and final
  complement all ones), which is what \<open>crc.buf(msg, 0)\<close> of the package computes. For
  \<open>float_bits\<close> they use the identity on bit patterns.
\<close>

definition crc32_bit :: "32 word \<Rightarrow> 32 word" where
  "crc32_bit c = (if bit c 0 then drop_bit 1 c XOR 0xEDB88320 else drop_bit 1 c)"

definition crc32_byte :: "32 word \<Rightarrow> byte \<Rightarrow> 32 word" where
  "crc32_byte c b =
     crc32_bit (crc32_bit (crc32_bit (crc32_bit (crc32_bit (crc32_bit (crc32_bit (crc32_bit
       (c XOR ucast b))))))))"

definition crc32_buf :: "buffer \<Rightarrow> 32 word" where
  "crc32_buf B = NOT (foldl crc32_byte (NOT 0) B)"

text \<open>
  The server of the examples: its identifier is \<open>AA BB CC DD\<close>; slot 0 has been set
  to a connected controller, the other three slots hold the dummy state.
\<close>

definition example_server :: "32 word DSUServer" where
  "example_server =
     fst (DSU_setControllerState (new_DSUServer [0xAA, 0xBB, 0xCC, 0xDD]) 0
            (DSU_dummyState\<lparr>connected := True\<rparr>))"

text \<open>The controller-data query of a client for slot 2, by slot index.\<close>

definition query_slot_2 :: buffer where
  "query_slot_2 =
     [0x44, 0x53, 0x55, 0x43, 0xE9, 0x03, 0x0C, 0x00, 0x75, 0x58, 0xE9, 0x8E,
      0x11, 0x22, 0x33, 0x44, 0x02, 0x00, 0x10, 0x00, 0x01, 0x02, 0x00, 0x00,
      0x00, 0x00, 0x00, 0x00]"

text \<open>A controller-data query by identifier, whose byte 7 is 3.\<close>

definition query_identifier_3 :: buffer where
  "query_identifier_3 =
     [0x44, 0x53, 0x55, 0x43, 0xE9, 0x03, 0x0C, 0x00, 0x55, 0xE3, 0xAA, 0x68,
      0x11, 0x22, 0x33, 0x44, 0x02, 0x00, 0x10, 0x00, 0x02, 0x00, 0xAA, 0xBB,
      0xCC, 0xDD, 0x00, 0x03]"

text \<open>A controller-data query whose byte 0 is 9.\<close>

definition query_mode_9 :: buffer where
  "query_mode_9 =
     [0x44, 0x53, 0x55, 0x43, 0xE9, 0x03, 0x0C, 0x00, 0xE9, 0x52, 0x93, 0xCA,
      0x11, 0x22, 0x33, 0x44, 0x02, 0x00, 0x10, 0x00, 0x09, 0x00, 0x00, 0x00,
      0x00, 0x00, 0x00, 0x00]"

text \<open>A controller-data query for slot 4, by slot index.\<close>

definition query_slot_4 :: buffer where
  "query_slot_4 =
     [0x44, 0x53, 0x55, 0x43, 0xE9, 0x03, 0x0C, 0x00, 0x4F, 0x6D, 0x39, 0xED,
      0x11, 0x22, 0x33, 0x44, 0x02, 0x00, 0x10, 0x00, 0x01, 0x04, 0x00, 0x00,
      0x00, 0x00, 0x00, 0x00]"

text \<open>A connected-controllers query for one slot, slot 2.\<close>

definition query_connected_2 :: buffer where
  "query_connected_2 =
     [0x44, 0x53, 0x55, 0x43, 0xE9, 0x03, 0x09, 0x00, 0x0A, 0x76, 0x86, 0x46,
      0x11, 0x22, 0x33, 0x44, 0x01, 0x00, 0x10, 0x00, 0x01, 0x00, 0x00, 0x00,
      0x02]"

section \<open>The byte codec\<close>

declare number2buffer_loop.simps [simp del]
declare littleEndian2number_loop.simps [simp del]
declare hex_digits.simps [simp del]
declare odd_part.simps [simp del]
declare littleEndian2number_exact.simps [simp del]
declare ConnectedControllers_loop.simps [simp del]

lemma ToUint8_js_rem: "ToUint8 (js_rem n 256) = word_of_int n"
proof -
  have "js_rem n 256 mod 256 = n mod 256"
  proof (cases "n < 0")
    case True
    then have "js_rem n 256 = - ((- n) mod 256)" by (simp add: js_rem_def)
    then show ?thesis by (simp add: mod_minus_eq)
  next
    case False
    then show ?thesis by (cases "n = 0") (simp_all add: js_rem_def)
  qed
  then show ?thesis
    unfolding ToUint8_def by (simp add: word_of_int_eq_iff take_bit_eq_mod)
qed

lemma number2buffer_loop_eq:
  "length littleEndian = sz \<Longrightarrow> i \<le> sz \<Longrightarrow>
   number2buffer_loop i sz n littleEndian =
     take i littleEndian @ map (\<lambda>k. word_of_int (n div 256 ^ k)) [0..<sz - i]"
proof (induction i sz n littleEndian rule: number2buffer_loop.induct)
  case (1 i sz n littleEndian)
  show ?case
  proof (cases "i < sz")
    case False
    with "1.prems" show ?thesis by (simp add: number2buffer_loop.simps)
  next
    case True
    let ?le = "littleEndian[i := ToUint8 (js_rem n 256)]"
    have step: "number2buffer_loop i sz n littleEndian = number2buffer_loop (i + 1) sz (n div 256) ?le"
      using True by (subst number2buffer_loop.simps) simp
    have ih: "number2buffer_loop (i + 1) sz (n div 256) ?le =
        take (i + 1) ?le @ map (\<lambda>k. word_of_int (n div 256 div 256 ^ k)) [0..<sz - (i + 1)]"
      using "1.IH" [OF True] "1.prems" True by simp
    have t: "take (i + 1) ?le = take i littleEndian @ [word_of_int n]"
      using True "1.prems" by (simp add: take_Suc_conv_app_nth ToUint8_js_rem)
    have m: "map (\<lambda>k. word_of_int (n div 256 ^ k) :: byte) [0..<sz - i] =
        word_of_int n # map (\<lambda>k. word_of_int (n div 256 div 256 ^ k)) [0..<sz - (i + 1)]"
    proof -
      have "[0..<sz - i] = 0 # map Suc [0..<sz - (i + 1)]"
        using True by (metis Suc_diff_Suc Suc_eq_plus1 upt_conv_Cons zero_less_diff map_Suc_upt)
      moreover have "n div (256 * 256 ^ k) = n div 256 div 256 ^ k" for k :: nat
        by (simp add: zdiv_zmult2_eq)
      ultimately show ?thesis by (simp add: comp_def)
    qed
    show ?thesis unfolding step ih t m by simp
  qed
qed

lemma DSU_number2buffer_eq:
  "DSU_number2buffer n sz = map (\<lambda>k. word_of_int (n div 256 ^ k)) [0..<sz]"
  by (simp add: DSU_number2buffer_def alloc_def number2buffer_loop_eq)

lemma length_DSU_number2buffer [simp]: "length (DSU_number2buffer n sz) = sz"
  by (simp add: DSU_number2buffer_eq)

lemma nth_DSU_number2buffer:
  "i < sz \<Longrightarrow> DSU_number2buffer n sz ! i = word_of_int (n div 256 ^ i)"
  by (simp add: DSU_number2buffer_eq)

lemma number2buffer_2: "DSU_number2buffer n 2 = [word_of_int n, word_of_int (n div 256)]"
  by (simp add: DSU_number2buffer_eq numeral_2_eq_2)

lemma uint_byte_of_int: "uint (word_of_int n :: byte) = n mod 256"
  by (simp add: uint_word_of_int take_bit_eq_mod)

lemma littleEndian2number_loop_eq:
  "littleEndian2number_loop buffer i n multiplier = n + multiplier * le_val (drop i buffer)"
proof (induction buffer i n multiplier rule: littleEndian2number_loop.induct)
  case (1 buffer i n multiplier)
  show ?case
  proof (cases "i < length buffer")
    case False
    then show ?thesis by (simp add: littleEndian2number_loop.simps)
  next
    case True
    then have d: "drop i buffer = buffer ! i # drop (i + 1) buffer"
      by (simp add: Cons_nth_drop_Suc)
    show ?thesis
      using True "1.IH" [OF True]
      by (subst littleEndian2number_loop.simps) (simp add: d algebra_simps)
  qed
qed

lemma DSU_littleEndian2number_eq: "DSU_littleEndian2number buffer = le_val buffer"
  by (simp add: DSU_littleEndian2number_def littleEndian2number_loop_eq)

lemma le_val_nonneg: "0 \<le> le_val bs"
  by (induction bs) simp_all

lemma le_val_digits:
  "0 \<le> n \<Longrightarrow> le_val (map (\<lambda>k. word_of_int (n div 256 ^ k)) [0..<sz]) = n mod 256 ^ sz"
proof (induction sz arbitrary: n)
  case 0
  then show ?case by simp
next
  case (Suc sz)
  have u: "[0..<Suc sz] = 0 # map Suc [0..<sz]"
    by (simp add: upt_conv_Cons map_Suc_upt del: upt_Suc)
  have ih: "le_val (map (\<lambda>k. word_of_int (n div 256 div 256 ^ k)) [0..<sz]) = n div 256 mod 256 ^ sz"
    using Suc.IH [of "n div 256"] Suc.prems by (simp add: pos_imp_zdiv_nonneg_iff)
  have b: "uint (word_of_int n :: byte) = n mod 256"
    by (simp add: uint_word_of_int take_bit_eq_mod)
  have d: "n div (256 * 256 ^ k) = n div 256 div 256 ^ k" for k :: nat
    by (simp add: zdiv_zmult2_eq)
  have "n mod 256 ^ Suc sz = n mod 256 + 256 * (n div 256 mod 256 ^ sz)"
    by (simp add: zmod_zmult2_eq)
  then show ?case
    unfolding u by (simp add: comp_def d ih b del: upt_Suc)
qed

lemma number2buffer_le_val: "DSU_number2buffer (le_val bs) (length bs) = bs"
proof -
  have "map (\<lambda>k. word_of_int (le_val bs div 256 ^ k)) [0..<length bs] = bs"
  proof (induction bs)
    case Nil
    then show ?case by simp
  next
    case (Cons b bs)
    have u: "[0..<length (b # bs)] = 0 # map Suc [0..<length bs]"
      by (simp add: upt_conv_Cons map_Suc_upt del: upt_Suc)
    have d: "(uint b + 256 * le_val bs) div 256 = le_val bs"
      using uint_lt2p [of b] by simp
    have "(256 :: byte) = 0" by simp
    then have z: "(256 :: byte) * x = 0" for x
      by (simp only: mult_zero_left)
    then have w: "word_of_int (uint b + 256 * le_val bs) = b"
      by simp
    have e: "(uint b + 256 * le_val bs) div (256 * 256 ^ k) = le_val bs div 256 ^ k" for k :: nat
      by (simp add: zdiv_zmult2_eq d)
    show ?case
      unfolding u using Cons.IH by (simp add: comp_def e w z del: upt_Suc)
  qed
  then show ?thesis by (simp add: DSU_number2buffer_eq)
qed

text \<open>
  C8. Every non-negative integer that fits in \<open>w\<close> bytes, for \<open>w\<close> one of 1, 2, 4 and 8,
  is returned by \<open>DSU_littleEndian2number\<close> from the buffer \<open>DSU_number2buffer\<close> made
  of it. (For the numbers of the program, which are doubles, the subsection after this
  one shows that the decoding stays within the doubles.)
\<close>

theorem number2buffer_roundtrip:
  assumes "w \<in> {1, 2, 4, 8}" and "0 \<le> n" and "n < 256 ^ w"
  shows "DSU_littleEndian2number (DSU_number2buffer n w) = n"
proof -
  have "DSU_littleEndian2number (DSU_number2buffer n w) =
      le_val (map (\<lambda>k. word_of_int (n div 256 ^ k)) [0..<w])"
    by (simp only: DSU_littleEndian2number_eq DSU_number2buffer_eq)
  also have "\<dots> = n mod 256 ^ w"
    using \<open>0 \<le> n\<close> by (rule le_val_digits)
  also have "\<dots> = n"
    using assms(2,3) by simp
  finally show ?thesis .
qed

theorem number2buffer_roundtrip_witness:
  "(8::nat) \<in> {1, 2, 4, 8} \<and> (0::int) \<le> 1700000000123 \<and> (1700000000123::int) < 256 ^ 8 \<and>
   DSU_littleEndian2number (DSU_number2buffer 1700000000123 8) = 1700000000123"
  using number2buffer_roundtrip [of 8 1700000000123] by simp

subsection \<open>The round trip in doubles\<close>

lemma odd_part_0 [simp]: "odd_part 0 = 0"
  by (simp add: odd_part.simps)

lemma odd_part_double: "odd_part (2 * m) = odd_part m"
  by (cases "m = 0") (simp_all add: odd_part.simps [of "2 * m"])

lemma odd_part_power: "odd_part (2 ^ e * m) = odd_part m"
  by (induction e) (simp_all add: odd_part_double mult.assoc)

lemma odd_part_le: "0 \<le> n \<Longrightarrow> 0 \<le> odd_part n \<and> odd_part n \<le> n"
proof (induction n rule: odd_part.induct)
  case (1 n)
  show ?case
  proof (cases "n = 0 \<or> odd n")
    case True
    with "1.prems" show ?thesis by (simp add: odd_part.simps [of n])
  next
    case False
    with "1.IH" "1.prems" have "0 \<le> odd_part (n div 2) \<and> odd_part (n div 2) \<le> n div 2"
      by simp
    with False "1.prems" show ?thesis
      by (simp add: odd_part.simps [of n]) linarith
  qed
qed

lemma odd_part_factor: "\<exists>e. n = 2 ^ e * odd_part n"
proof (induction n rule: odd_part.induct)
  case (1 n)
  show ?case
  proof (cases "n = 0 \<or> odd n")
    case True
    then have "n = 2 ^ 0 * odd_part n" by (simp add: odd_part.simps [of n])
    then show ?thesis by blast
  next
    case False
    with "1.IH" obtain e where e: "n div 2 = 2 ^ e * odd_part (n div 2)" by blast
    from False have "n = 2 * (n div 2)" by auto
    also have "\<dots> = 2 * (2 ^ e * odd_part (n div 2))" using e by simp
    finally have "n = 2 ^ Suc e * odd_part (n div 2)" by simp
    with False have "n = 2 ^ Suc e * odd_part n"
      by (simp add: odd_part.simps [of n])
    then show ?thesis by blast
  qed
qed

lemma double_exact_small: "0 \<le> n \<Longrightarrow> n < 2 ^ 53 \<Longrightarrow> double_exact n"
  using odd_part_le [of n] by (simp add: double_exact_def)

lemma double_exact_power: "double_exact (2 ^ e * m) \<longleftrightarrow> double_exact m"
  by (simp add: double_exact_def odd_part_power)

lemma double_exact_mod:
  assumes "double_exact n" and "0 \<le> n"
  shows "double_exact (n mod 2 ^ k)"
proof -
  obtain e where e: "n = 2 ^ e * odd_part n"
    using odd_part_factor by blast
  let ?m = "odd_part n"
  from odd_part_le [OF assms(2)] have m: "0 \<le> ?m" by simp
  show ?thesis
  proof (cases "k \<le> e")
    case True
    then have "(2::int) ^ k dvd 2 ^ e" by (simp add: le_imp_power_dvd)
    then have "(2::int) ^ k dvd 2 ^ e * ?m" by (rule dvd_mult2)
    with e have "n mod 2 ^ k = 0" by (metis dvd_eq_mod_eq_0)
    then show ?thesis by (simp add: double_exact_def)
  next
    case False
    then have k: "k = e + (k - e)" by simp
    have "n mod 2 ^ k = (2 ^ e * ?m) mod (2 ^ e * 2 ^ (k - e))"
      using e k by (metis power_add)
    also have "\<dots> = 2 ^ e * (?m mod 2 ^ (k - e))"
      by (rule mult_mod_right [symmetric])
    finally have eq: "n mod 2 ^ k = 2 ^ e * (?m mod 2 ^ (k - e))" .
    have "0 \<le> ?m mod 2 ^ (k - e)" "?m mod 2 ^ (k - e) \<le> ?m"
      using m by (simp_all add: zmod_le_nonneg_dividend)
    moreover from assms(1) m have "?m < 2 ^ 53" by (simp add: double_exact_def)
    ultimately have "double_exact (?m mod 2 ^ (k - e))"
      by (intro double_exact_small) simp_all
    then show ?thesis by (simp only: eq double_exact_power)
  qed
qed

lemma power_256: "(256::int) ^ i = 2 ^ (8 * i)"
  by (simp add: power_mult)

lemma double_exact_power_256: "double_exact (256 ^ i)"
  using double_exact_power [of "8 * i" 1] double_exact_small [of 1]
  by (simp add: power_256)

lemma double_exact_digit: "0 \<le> d \<Longrightarrow> d < 256 \<Longrightarrow> double_exact (d * 256 ^ i)"
  using double_exact_power [of "8 * i" d] double_exact_small [of d]
  by (simp add: power_256 mult.commute)

lemma littleEndian2number_exact_step:
  "i < length buffer \<Longrightarrow>
   littleEndian2number_exact buffer i n multiplier \<longleftrightarrow>
     double_exact (uint (buffer ! i) * multiplier) \<and>
     double_exact (n + uint (buffer ! i) * multiplier) \<and>
     double_exact (multiplier * 256) \<and>
     littleEndian2number_exact buffer (i + 1) (n + uint (buffer ! i) * multiplier)
       (multiplier * 256)"
  by (subst littleEndian2number_exact.simps) simp

lemma littleEndian2number_exact_digits:
  assumes "double_exact n" and "0 \<le> n"
  shows "i \<le> sz \<Longrightarrow>
    littleEndian2number_exact (DSU_number2buffer n sz) i (n mod 256 ^ i) (256 ^ i)"
proof (induction "sz - i" arbitrary: i)
  case 0
  then show ?case
    by (subst littleEndian2number_exact.simps) simp
next
  case (Suc k)
  then have i: "i < sz" by simp
  let ?d = "uint (DSU_number2buffer n sz ! i)"
  have u: "?d = n div 256 ^ i mod 256"
    using i by (simp add: nth_DSU_number2buffer uint_byte_of_int)
  have d: "0 \<le> ?d" "?d < 256" by (simp_all add: u)
  have s: "n mod 256 ^ i + ?d * 256 ^ i = n mod 256 ^ (i + 1)"
    using zmod_zmult2_eq [of 256 n "256 ^ i"] by (simp add: u mult.commute)
  have m: "(256::int) ^ i * 256 = 256 ^ (i + 1)" by simp
  have 1: "double_exact (?d * 256 ^ i)"
    using d by (rule double_exact_digit)
  have "double_exact (n mod 256 ^ (i + 1))"
    unfolding power_256 using assms by (rule double_exact_mod)
  then have 2: "double_exact (n mod 256 ^ i + ?d * 256 ^ i)"
    by (simp only: s)
  have 3: "double_exact (256 ^ i * 256)"
    unfolding m by (rule double_exact_power_256)
  have "littleEndian2number_exact (DSU_number2buffer n sz) (i + 1)
      (n mod 256 ^ (i + 1)) (256 ^ (i + 1))"
    using Suc.hyps(2) i by (intro Suc.hyps(1)) simp_all
  then have 4: "littleEndian2number_exact (DSU_number2buffer n sz) (i + 1)
      (n mod 256 ^ i + ?d * 256 ^ i) (256 ^ i * 256)"
    by (simp only: s m)
  from i have "i < length (DSU_number2buffer n sz)" by simp
  from littleEndian2number_exact_step [OF this] 1 2 3 4 show ?case by blast
qed

lemma littleEndian2number_exact_short:
  "length buffer \<le> 6 \<Longrightarrow> 0 \<le> n \<Longrightarrow> n < 256 ^ i \<Longrightarrow>
   littleEndian2number_exact buffer i n (256 ^ i)"
proof (induction "length buffer - i" arbitrary: i n)
  case 0
  then show ?case
    by (subst littleEndian2number_exact.simps) simp
next
  case (Suc k)
  then have i: "i < length buffer" by simp
  let ?d = "uint (buffer ! i)"
  have d: "0 \<le> ?d" "?d < 256"
    using uint_lt2p [of "buffer ! i"] by simp_all
  have m: "(256::int) ^ i * 256 = 256 ^ (i + 1)" by simp
  have b: "n + ?d * 256 ^ i < 256 ^ (i + 1)"
  proof -
    have "?d * 256 ^ i \<le> 255 * 256 ^ i"
      using d by (intro mult_right_mono) simp_all
    with Suc.prems(3) have "n + ?d * 256 ^ i < 256 ^ i + 255 * 256 ^ i"
      by linarith
    then show ?thesis by simp
  qed
  have "(256::int) ^ (i + 1) \<le> 256 ^ 6"
    using i Suc.prems(1) by (intro power_increasing) simp_all
  with b have small: "n + ?d * 256 ^ i < 2 ^ 53" by simp
  have 1: "double_exact (?d * 256 ^ i)"
    using d by (rule double_exact_digit)
  have 2: "double_exact (n + ?d * 256 ^ i)"
    using Suc.prems(2) d small by (intro double_exact_small) simp_all
  have 3: "double_exact (256 ^ i * 256)"
    unfolding m by (rule double_exact_power_256)
  have "littleEndian2number_exact buffer (i + 1) (n + ?d * 256 ^ i) (256 ^ (i + 1))"
    using Suc.hyps(2) Suc.prems(1,2) i b d by (intro Suc.hyps(1)) simp_all
  then have 4: "littleEndian2number_exact buffer (i + 1) (n + ?d * 256 ^ i) (256 ^ i * 256)"
    by (simp only: m)
  from littleEndian2number_exact_step [OF i] 1 2 3 4 show ?case by blast
qed

text \<open>
  In the round trip of a number that is a double, and in the decoding of any buffer of at
  most six bytes, every value that \<open>DSU_littleEndian2number\<close> computes is a double: the
  arithmetic of the program gives there what the arithmetic of integers gives.
\<close>

lemma littleEndian2number_in_doubles:
  "double_exact n \<Longrightarrow> 0 \<le> n \<Longrightarrow>
     littleEndian2number_exact (DSU_number2buffer n sz) 0 0 1"
  "length buffer \<le> 6 \<Longrightarrow> littleEndian2number_exact buffer 0 0 1"
  using littleEndian2number_exact_digits [of n 0 sz]
    littleEndian2number_exact_short [of buffer 0 0]
  by simp_all

section \<open>Hexadecimal text\<close>

lemma hex_val_hex_digit_all: "list_all (\<lambda>d. hex_val (hex_digit d) = Some d) [0..<16]"
  by code_simp

lemma hex_val_hex_digit: "d < 16 \<Longrightarrow> hex_val (hex_digit d) = Some d"
  using hex_val_hex_digit_all by (simp add: list_all_iff)

lemma Buffer_from_hex_toString_hex: "Buffer_from_hex (toString_hex bs) = bs"
proof (induction bs)
  case Nil
  then show ?case by (simp add: toString_hex_def)
next
  case (Cons b bs)
  have h: "unat b div 16 < 16"
    using unsigned_less [of b, where ?'a = nat] by simp
  have l: "unat b mod 16 < 16" by simp
  from Cons show ?case
    by (simp add: toString_hex_def hex_val_hex_digit [OF h] hex_val_hex_digit [OF l])
qed

lemma length_toString_hex: "length (toString_hex bs) = 2 * length bs"
  by (induction bs) (simp_all add: toString_hex_def)

lemma toString_hex_inj: "toString_hex a = toString_hex b \<Longrightarrow> a = b"
  by (metis Buffer_from_hex_toString_hex)

lemma hex_value_hex_digits: "hex_value (hex_digits n) = n"
proof (induction n rule: hex_digits.induct)
  case (1 n)
  show ?case
  proof (cases "n < 16")
    case True
    then show ?thesis
      by (subst hex_digits.simps) (simp add: hex_value_def hex_val_hex_digit)
  next
    case False
    have "hex_value (hex_digits (n div 16) @ [hex_digit (n mod 16)]) =
        16 * hex_value (hex_digits (n div 16)) + n mod 16"
      by (simp add: hex_value_def hex_val_hex_digit)
    with False "1.IH" show ?thesis
      by (subst hex_digits.simps) simp
  qed
qed

lemma hex_digits_inj: "hex_digits a = hex_digits b \<Longrightarrow> a = b"
  by (metis hex_value_hex_digits)

lemma hex_digits_codes:
  "hex_digits 1048576 = ''100000''"
  "hex_digits 1048577 = ''100001''"
  "hex_digits 1048578 = ''100002''"
  "hex_digits 110001 = ''1adb1''"
  "hex_digits 110002 = ''1adb2''"
  "hex_digits 0 = ''0''"
  by (simp_all add: hex_digits.simps hex_digit_def)

section \<open>The checksum field\<close>

lemma word_byte_drop: "word_of_int (uint (w :: 32 word) div 2 ^ k) = (ucast (drop_bit k w) :: byte)"
proof -
  have "uint (drop_bit k w) = drop_bit k (take_bit LENGTH(32) (uint w))"
    by (rule unsigned_drop_bit_eq)
  also have "take_bit LENGTH(32) (uint w) = uint w"
    using uint_lt2p [of w] by (intro take_bit_int_eq_self) simp_all
  finally have "uint (drop_bit k w) = uint w div 2 ^ k"
    by (simp only: drop_bit_eq_div)
  then show ?thesis
    by (simp only: ucast_eq)
qed

lemma sint_to_unsigned:
  fixes w :: "32 word"
  shows "(if sint w < 0 then sint w + 2 ^ 32 else sint w) = uint w"
proof -
  have u: "uint w = sint w mod 2 ^ 32"
    by (simp add: uint_sint take_bit_eq_mod)
  have lo: "- (2 ^ 31) \<le> sint w" using sint_ge [of w] by simp
  have hi: "sint w < 2 ^ 31" using sint_lt [of w] by simp
  show ?thesis
  proof (cases "sint w < 0")
    case True
    have "(sint w + 2 ^ 32) mod 2 ^ 32 = sint w + 2 ^ 32"
      using lo True by (intro mod_pos_pos_trivial) simp_all
    then have "sint w mod 2 ^ 32 = sint w + 2 ^ 32" by simp
    with True u show ?thesis by simp
  next
    case False
    then have "sint w mod 2 ^ 32 = sint w"
      using hi by (intro mod_pos_pos_trivial) simp_all
    with False u show ?thesis by simp
  qed
qed

lemma writeUInt32LE_uint: "writeUInt32LE (alloc 4) (uint w) 0 = word32_le w"
proof -
  have a: "alloc 4 = [0, 0, 0, 0]"
    by (simp add: alloc_def numeral_eq_Suc)
  have b: "ToUint8 (uint w div 2 ^ k) = ucast (drop_bit k w)" for k
    unfolding ToUint8_def by (rule word_byte_drop)
  have c: "ToUint8 (uint w) = ucast w"
    unfolding ToUint8_def by (simp only: ucast_eq)
  show ?thesis
    unfolding writeUInt32LE_def a b c word32_le_def by simp
qed

lemma number2buffer_uint32: "DSU_number2buffer (uint (w :: 32 word)) 4 = word32_le w"
proof -
  have "[0..<4] = [0, 1, 2, 3]" by code_simp
  moreover have "word_of_int (uint w div 256 ^ k) = (ucast (drop_bit (8 * k) w) :: byte)" for k
    using word_byte_drop [of w "8 * k"] by (simp add: power_mult)
  ultimately show ?thesis
    by (simp add: DSU_number2buffer_eq word32_le_def)
qed

lemma length_word32_le [simp]: "length (word32_le w) = 4"
  by (simp add: word32_le_def)

lemma checksum_of_uint: "checksum_of crc_buf msg = uint (crc_buf (zero_checksum msg))"
  by (simp add: checksum_of_def Let_def sint_to_unsigned)

lemma DSU_calcCRC32_eq:
  "DSU_calcCRC32 crc_buf msg =
     (msg[8 := 0, 9 := 0, 10 := 0, 11 := 0],
      toString_hex (word32_le (crc_buf (msg[8 := 0, 9 := 0, 10 := 0, 11 := 0]))))"
  by (simp add: DSU_calcCRC32_def Let_def sint_to_unsigned writeUInt32LE_uint)

lemma zero_checksum_eq: "msg[8 := 0, 9 := 0, 10 := 0, 11 := (0::byte)] = zero_checksum msg"
proof (rule nth_equalityI)
  show "length (msg[8 := 0, 9 := 0, 10 := 0, 11 := 0]) = length (zero_checksum msg)"
    by (simp add: zero_checksum_def)
next
  fix i
  assume "i < length (msg[8 := 0, 9 := 0, 10 := 0, 11 := 0])"
  then have i: "i < length msg" by simp
  consider "i < 8" | "8 \<le> i" "i < 12" | "12 \<le> i" by linarith
  then show "msg[8 := 0, 9 := 0, 10 := 0, 11 := 0] ! i = zero_checksum msg ! i"
  proof cases
    case 1
    with i show ?thesis by (simp add: zero_checksum_def nth_append)
  next
    case 2
    then have "i = 8 \<or> i = 9 \<or> i = 10 \<or> i = 11" by linarith
    then have l: "msg[8 := 0, 9 := 0, 10 := 0, 11 := 0] ! i = 0"
      using i by auto
    from 2 i have "i - 8 < min 4 (length msg - 8)" by linarith
    moreover from 2 i have "min (length msg) 8 = 8" by simp
    ultimately have "zero_checksum msg ! i = 0"
      using 2 by (simp add: zero_checksum_def nth_append)
    with l show ?thesis by simp
  next
    case 3
    with i have "min 4 (length msg - 8) = 4" by simp
    moreover from 3 have "\<not> i - 8 < 4" by simp
    ultimately show ?thesis using 3 i by (simp add: zero_checksum_def nth_append)
  qed
qed

lemma length_zero_checksum [simp]: "length (zero_checksum msg) = length msg"
  by (simp flip: zero_checksum_eq)

lemma nth_zero_checksum:
  "i < length msg \<Longrightarrow> zero_checksum msg ! i = (if 8 \<le> i \<and> i < 12 then 0 else msg ! i)"
proof -
  assume i: "i < length msg"
  consider "i < 8" | "8 \<le> i" "i < 12" | "12 \<le> i" by linarith
  then show ?thesis
  proof cases
    case 1
    with i show ?thesis by (simp add: zero_checksum_def nth_append)
  next
    case 2
    with i have "i - 8 < min 4 (length msg - 8)" by linarith
    moreover from 2 i have "min (length msg) 8 = 8" by simp
    ultimately show ?thesis
      using 2 by (simp add: zero_checksum_def nth_append)
  next
    case 3
    with i have "min 4 (length msg - 8) = 4" by simp
    moreover from 3 have "\<not> i - 8 < 4" by simp
    ultimately show ?thesis using 3 i by (simp add: zero_checksum_def nth_append)
  qed
qed

lemma drop_zero_checksum: "12 \<le> n \<Longrightarrow> drop n (zero_checksum msg) = drop n msg"
  by (simp flip: zero_checksum_eq)

section \<open>The layout of a frame\<close>

lemma length_alloc [simp]: "length (alloc n) = n"
  by (simp add: alloc_def)

lemma length_put [simp]: "length (put buffer i v) = length buffer"
  by (simp add: put_def)

lemma length_copy [simp]: "length (copy source target start) = length target"
  by (cases source) (auto simp: copy_def Let_def min_def)

lemma copy_replace:
  "length a = start \<Longrightarrow> length b = length source \<Longrightarrow> copy source (a @ b @ c) start = a @ source @ c"
  by (simp add: copy_def Let_def)

lemma copy_pad:
  "length a = start \<Longrightarrow> copy source (a @ replicate 4 0) start = a @ pad4 source"
  by (simp add: copy_def Let_def pad4_def min_def)

lemma length_DSU_messageType2buffer [simp]: "length (DSU_messageType2buffer t) = 4"
  by (cases t) (simp_all add: DSU_messageType2buffer_def)

lemma length_pad4 [simp]: "length (pad4 b) = 4"
  by (simp add: pad4_def)

lemma version_bytes: "DSU_number2buffer 1001 2 = [0xE9, 0x03]"
  by code_simp

lemma header_bytes:
  "copy (DATA_CONTROLLERID this) (copy (DSU_number2buffer 1001 2) (copy DSUS (alloc 16) 0) 4) 12
     = DSUS @ [0xE9, 0x03] @ replicate 6 0 @ pad4 (DATA_CONTROLLERID this)"
proof -
  have a: "alloc 16 = [] @ replicate 4 0 @ replicate 12 0"
    by (simp add: alloc_def flip: replicate_add)
  have 1: "copy DSUS (alloc 16) 0 = DSUS @ replicate 12 0"
    unfolding a by (subst copy_replace) (simp_all add: DSUS_def)
  have b: "DSUS @ replicate 12 0 = DSUS @ replicate 2 0 @ replicate 10 0"
    by (simp flip: replicate_add)
  have 2: "copy [0xE9, 0x03] (DSUS @ replicate 12 0) 4 = DSUS @ [0xE9, 0x03] @ replicate 10 0"
    unfolding b by (subst copy_replace) (simp_all add: DSUS_def)
  have c: "DSUS @ [0xE9, 0x03] @ replicate 10 0 = (DSUS @ [0xE9, 0x03] @ replicate 6 0) @ replicate 4 0"
    by (simp flip: replicate_add)
  have 3: "copy (DATA_CONTROLLERID this) (DSUS @ [0xE9, 0x03] @ replicate 10 0) 12
      = (DSUS @ [0xE9, 0x03] @ replicate 6 0) @ pad4 (DATA_CONTROLLERID this)"
    unfolding c by (rule copy_pad) (simp add: DSUS_def)
  show ?thesis
    by (simp only: version_bytes 1 2 3 append_assoc)
qed

lemma DSU_generateMessage_frame:
  "DSU_generateMessage crc_buf this type data =
     frame (word32_le (crc_buf (frame [0, 0, 0, 0] (pad4 (DATA_CONTROLLERID this))
                                   (DSU_messageType2buffer type) data)))
       (pad4 (DATA_CONTROLLERID this)) (DSU_messageType2buffer type) data"
proof -
  let ?id = "pad4 (DATA_CONTROLLERID this)"
  let ?code = "DSU_messageType2buffer type"
  let ?len = "DSU_number2buffer (int (length ?code + length data)) 2"
  let ?hdr = "DSUS @ [0xE9, 0x03] @ replicate 6 0 @ ?id"
  have l: "int (length (?hdr @ ?code @ data)) - int (length ?hdr) = int (length ?code + length data)"
    by simp
  have r: "?hdr @ ?code @ data = (DSUS @ [0xE9, 0x03]) @ replicate 2 0 @ (replicate 4 0 @ ?id @ ?code @ data)"
    by (simp flip: replicate_add)
  have 1: "copy ?len (?hdr @ ?code @ data) 6 = frame [0, 0, 0, 0] ?id ?code data"
    unfolding r by (subst copy_replace) (simp_all add: DSUS_def frame_def numeral_eq_Suc)
  have z: "zero_checksum (frame [0, 0, 0, 0] ?id ?code data) = frame [0, 0, 0, 0] ?id ?code data"
    by (simp add: zero_checksum_def frame_def DSUS_def numeral_eq_Suc)
  have f: "frame [0, 0, 0, 0] ?id ?code data = (DSUS @ [0xE9, 0x03] @ ?len) @ [0, 0, 0, 0] @ (?id @ ?code @ data)"
    by (simp add: frame_def)
  have 2: "copy (word32_le w) (frame [0, 0, 0, 0] ?id ?code data) 8 = frame (word32_le w) ?id ?code data" for w
    unfolding f by (subst copy_replace) (simp_all add: DSUS_def frame_def)
  show ?thesis
    unfolding DSU_generateMessage_def Let_def header_bytes l 1 DSU_calcCRC32_eq zero_checksum_eq z
    by (simp add: Buffer_from_hex_toString_hex 2)
qed

lemma slice_mid: "length p = a \<Longrightarrow> a + length x = b \<Longrightarrow> slice (p @ x @ s) a b = x"
  by (auto simp: slice_def)

lemma slice_to_end: "slice msg n (length msg) = drop n msg"
  by (simp add: slice_def)

lemma declared_length_number2buffer:
  "length p = 6 \<Longrightarrow> declared_length (p @ DSU_number2buffer n 2 @ rest) = Some (n mod 65536)"
proof -
  assume p: "length p = 6"
  have "n mod 256 + n div 256 mod 256 * 256 = n mod 65536"
    using zmod_zmult2_eq [of 256 n 256] by simp
  then show ?thesis
    using p by (simp add: declared_length_def number2buffer_2 byte_at_def nth_append
        num_add_def num_mul_def uint_byte_of_int)
qed

lemma frame_declared_length:
  "declared_length (frame c s code body) = Some (int (length code + length body) mod 65536)"
proof -
  have "frame c s code body =
      (DSUS @ [0xE9, 0x03]) @ DSU_number2buffer (int (length code + length body)) 2
        @ (c @ s @ code @ body)"
    by (simp add: frame_def)
  moreover have "length (DSUS @ [0xE9, 0x03]) = 6"
    by (simp add: DSUS_def)
  ultimately show ?thesis
    by (simp only: declared_length_number2buffer)
qed

lemma frame_split:
  "frame c s code body =
     (DSUS @ [0xE9, 0x03] @ DSU_number2buffer (int (length code + length body)) 2)
       @ c @ (s @ code @ body)"
  by (simp add: frame_def)

lemma frame_split':
  "frame c s code body =
     (DSUS @ [0xE9, 0x03] @ DSU_number2buffer (int (length code + length body)) 2 @ c @ s)
       @ code @ body"
  by (simp add: frame_def)

lemma length_frame_prefix:
  "length (DSUS @ [0xE9, 0x03] @ DSU_number2buffer n 2) = 8"
  by (simp add: DSUS_def)

lemma frame_checksum: "length c = 4 \<Longrightarrow> slice (frame c s code body) 8 12 = c"
  unfolding frame_split by (rule slice_mid) (simp_all only: length_frame_prefix)

lemma frame_code:
  "length c = 4 \<Longrightarrow> length s = 4 \<Longrightarrow> length code = 4 \<Longrightarrow> slice (frame c s code body) 16 20 = code"
  unfolding frame_split' by (rule slice_mid) (simp_all add: DSUS_def)

lemma frame_body:
  "length c = 4 \<Longrightarrow> length s = 4 \<Longrightarrow> length code = 4 \<Longrightarrow> drop 20 (frame c s code body) = body"
  unfolding frame_split' by (simp add: DSUS_def)

lemma length_frame:
  "length (frame c s code body) = 8 + length c + length s + length code + length body"
  by (simp add: frame_def DSUS_def)

lemma frame_zero_checksum:
  "length c = 4 \<Longrightarrow> zero_checksum (frame c s code body) = frame [0, 0, 0, 0] s code body"
  unfolding frame_split zero_checksum_def
  by (simp add: length_frame_prefix del: append_assoc) (simp add: numeral_eq_Suc DSUS_def)

lemma generate_code:
  "slice (DSU_generateMessage crc_buf this type data) 16 20 = DSU_messageType2buffer type"
  by (simp add: DSU_generateMessage_frame frame_code)

lemma generate_body:
  "drop 20 (DSU_generateMessage crc_buf this type data) = data"
  by (simp add: DSU_generateMessage_frame frame_body)

section \<open>Parsing a datagram\<close>

lemma slice_slice_header: "b \<le> 16 \<Longrightarrow> slice (slice msg 0 16) a b = slice msg a b"
  by (simp add: slice_def min_def)

lemma byte_at_slice_header: "i < 16 \<Longrightarrow> byte_at (slice msg 0 16) i = byte_at msg i"
  by (simp add: slice_def byte_at_def)

lemma length_slice_header: "length (slice msg 0 16) = min 16 (length msg)"
  by (simp add: slice_def min_def)

lemma DSU_parseMessage_fst: "fst (DSU_parseMessage crc_buf msg) = zero_checksum msg"
  by (simp add: DSU_parseMessage_def Let_def DSU_calcCRC32_eq zero_checksum_eq)

lemma DSU_parseMessage_length_mismatch:
  "declared_length msg \<noteq> Some (int (length msg) - int (min 16 (length msg))) \<Longrightarrow>
   snd (DSU_parseMessage crc_buf msg) = Inl (Error ''Packet length mismatch'')"
  by (simp add: DSU_parseMessage_def Let_def DSU_calcCRC32_eq declared_length_def
      byte_at_slice_header length_slice_header)

lemma DSU_parseMessage_CRC32_mismatch:
  "declared_length msg = Some (int (length msg) - int (min 16 (length msg))) \<Longrightarrow>
   slice msg 8 12 \<noteq> word32_le (crc_buf (zero_checksum msg)) \<Longrightarrow>
   snd (DSU_parseMessage crc_buf msg) =
     Inl (Error (''CRC32 mismatch Expected: '' @ toString_hex (slice msg 8 12) @ '' Actual: ''
                  @ toString_hex (word32_le (crc_buf (zero_checksum msg)))))"
  by (auto simp: DSU_parseMessage_def Let_def DSU_calcCRC32_eq declared_length_def
      byte_at_slice_header length_slice_header slice_slice_header zero_checksum_eq
      dest: toString_hex_inj)

lemma DSU_parseMessage_ok:
  "declared_length msg = Some (int (length msg) - int (min 16 (length msg))) \<Longrightarrow>
   slice msg 8 12 = word32_le (crc_buf (zero_checksum msg)) \<Longrightarrow>
   \<exists>m. snd (DSU_parseMessage crc_buf msg) = Inr m \<and>
       messageType m = messageType_of (messageTypeHex (slice msg 16 20)) \<and>
       message m = drop 20 msg"
  by (simp add: DSU_parseMessage_def Let_def DSU_calcCRC32_eq declared_length_def
      byte_at_slice_header length_slice_header slice_slice_header zero_checksum_eq
      drop_zero_checksum slice_to_end [of "zero_checksum msg", simplified])

lemma DSU_parseMessage_isl:
  assumes "declared_length msg = Some (int (length msg) - int (min 16 (length msg)))"
  shows "isl (snd (DSU_parseMessage crc_buf msg)) \<longleftrightarrow>
         slice msg 8 12 \<noteq> word32_le (crc_buf (zero_checksum msg))"
proof (cases "slice msg 8 12 = word32_le (crc_buf (zero_checksum msg))")
  case True
  with DSU_parseMessage_ok [of msg crc_buf, OF assms] show ?thesis by auto
next
  case False
  with DSU_parseMessage_CRC32_mismatch [of msg crc_buf, OF assms] show ?thesis by simp
qed

lemma DSU_parseMessage_validation:
  assumes "16 \<le> length msg"
  shows "(snd (DSU_parseMessage crc_buf msg) = Inl (Error ''Packet length mismatch'') \<longleftrightarrow>
            declared_length msg \<noteq> Some (int (length msg) - 16)) \<and>
         (declared_length msg = Some (int (length msg) - 16) \<longrightarrow>
            (isl (snd (DSU_parseMessage crc_buf msg)) \<longleftrightarrow>
             slice msg 8 12 \<noteq> DSU_number2buffer (checksum_of crc_buf msg) 4))"
proof -
  have m: "int (min 16 (length msg)) = 16" using assms by simp
  have n: "DSU_number2buffer (checksum_of crc_buf msg) 4 = word32_le (crc_buf (zero_checksum msg))"
    by (simp only: checksum_of_uint number2buffer_uint32)
  show ?thesis
  proof (cases "declared_length msg = Some (int (length msg) - 16)")
    case False
    then show ?thesis
      using DSU_parseMessage_length_mismatch [of msg crc_buf] by (simp add: m)
  next
    case True
    then have d: "declared_length msg = Some (int (length msg) - int (min 16 (length msg)))"
      by (simp add: m)
    show ?thesis
    proof (cases "slice msg 8 12 = word32_le (crc_buf (zero_checksum msg))")
      case True
      with DSU_parseMessage_ok [of msg crc_buf, OF d] \<open>declared_length msg = Some (int (length msg) - 16)\<close>
      show ?thesis by (auto simp: n)
    next
      case False
      with DSU_parseMessage_CRC32_mismatch [of msg crc_buf, OF d] \<open>declared_length msg = Some (int (length msg) - 16)\<close>
      show ?thesis by (simp add: n)
    qed
  qed
qed

lemmas crc32_defs = crc32_buf_def crc32_byte_def crc32_bit_def

text \<open>
  C5 has \<open>DSU_parseMessage\<close> fail with a length mismatch exactly when the length of
  the datagram less 16 is not the declared length, and otherwise fail exactly when the
  checksums differ. For a datagram of at least 16 bytes that is what the lemma above
  shows. Here is a datagram of 12 bytes: the tag, the version, a length field of zero and
  the checksum of these. Its length less 16 is not the declared length, and yet
  \<open>DSU_parseMessage\<close> accepts it: the header slice is the whole datagram, and the
  size is measured against its length.
\<close>

theorem parseMessage_short_datagram:
  "DSU_parseMessage crc32_buf
     [0x44, 0x53, 0x55, 0x43, 0xE9, 0x03, 0x00, 0x00, 0xDC, 0xA7, 0xB9, 0xBC] =
   ([0x44, 0x53, 0x55, 0x43, 0xE9, 0x03, 0x00, 0x00, 0, 0, 0, 0],
    Inr \<lparr> header = \<lparr> dsuType = [0x44, 0x53, 0x55, 0x43], version = Some 1001,
                       packetLength = Some 0, CRC32 = ''dca7b9bc'', senderID = None \<rparr>,
          messageType = Unknown, message = [] \<rparr>) \<and>
   declared_length [0x44, 0x53, 0x55, 0x43, 0xE9, 0x03, 0x00, 0x00, 0xDC, 0xA7, 0xB9, 0xBC]
     = Some 0 \<and>
   int (length [0x44, 0x53, 0x55, 0x43, 0xE9, 0x03, 0x00, 0x00, 0xDC, 0xA7, 0xB9, 0xBC :: byte])
     - 16 = - 4"
proof -
  have crc: "crc32_buf [0x44, 0x53, 0x55, 0x43, 0xE9, 0x03, 0x00, 0x00, 0, 0, 0, 0] = 0xBCB9A7DC"
    by (simp add: crc32_defs)
  have "DSU_parseMessage crc32_buf
     [0x44, 0x53, 0x55, 0x43, 0xE9, 0x03, 0x00, 0x00, 0xDC, 0xA7, 0xB9, 0xBC] =
   ([0x44, 0x53, 0x55, 0x43, 0xE9, 0x03, 0x00, 0x00, 0, 0, 0, 0],
    Inr \<lparr> header = \<lparr> dsuType = [0x44, 0x53, 0x55, 0x43], version = Some 1001,
                       packetLength = Some 0, CRC32 = ''dca7b9bc'', senderID = None \<rparr>,
          messageType = Unknown, message = [] \<rparr>)"
    by (simp add: DSU_parseMessage_def Let_def DSU_calcCRC32_eq crc slice_def byte_at_def
        num_add_def num_mul_def word32_le_def toString_hex_def hex_digit_def
        messageTypeHex_def toString16_def messageType_of_def)
  then show ?thesis
    by (simp add: declared_length_def byte_at_def num_add_def num_mul_def)
qed

section \<open>Message kinds and their codes\<close>

lemma messageType2buffer_bytes:
  "DSU_messageType2buffer ProtocolVersionInformation = [0x00, 0x00, 0x10, 0x00]"
  "DSU_messageType2buffer ConnectedControllers = [0x01, 0x00, 0x10, 0x00]"
  "DSU_messageType2buffer ControllerData = [0x02, 0x00, 0x10, 0x00]"
  "DSU_messageType2buffer ControllerMotor = [0xB1, 0xAD, 0x01, 0x00]"
  "DSU_messageType2buffer Rumble = [0xB2, 0xAD, 0x01, 0x00]"
  "DSU_messageType2buffer Unknown = [0x00, 0x00, 0x00, 0x00]"
  by code_simp+

lemma messageTypeHex_bytes:
  "messageTypeHex [b0, b1, b2, b3] = hex_digits (nat (le_val [b0, b1, b2, b3]))"
proof -
  have "uint b0 + uint b1 * 256 + uint b2 * 256 * 256 + uint b3 * 256 * 256 * 256
      = le_val [b0, b1, b2, b3]"
    by simp
  moreover have "\<not> le_val [b0, b1, b2, b3] < 0"
    using le_val_nonneg [of "[b0, b1, b2, b3]"] by linarith
  ultimately show ?thesis
    by (simp add: messageTypeHex_def byte_at_def num_add_def num_mul_def toString16_def
        del: le_val.simps)
qed

lemma messageType_roundtrip:
  "messageType_of (messageTypeHex (DSU_messageType2buffer ProtocolVersionInformation)) = ProtocolVersionInformation"
  "messageType_of (messageTypeHex (DSU_messageType2buffer ConnectedControllers)) = ConnectedControllers"
  "messageType_of (messageTypeHex (DSU_messageType2buffer ControllerData)) = ControllerData"
  "messageType_of (messageTypeHex (DSU_messageType2buffer Unknown)) = Unknown"
  by (simp_all add: messageType2buffer_bytes messageTypeHex_bytes hex_digits_codes messageType_of_def)

lemma messageType_slip:
  "messageType_of (messageTypeHex (DSU_messageType2buffer ControllerMotor)) = Unknown"
  "messageType_of (messageTypeHex (DSU_messageType2buffer Rumble)) = Unknown"
  by (simp_all add: messageType2buffer_bytes messageTypeHex_bytes hex_digits_codes messageType_of_def)

lemma code_bytes:
  "DSU_number2buffer 1048576 4 = [0x00, 0x00, 0x10, 0x00]"
  "DSU_number2buffer 1048577 4 = [0x01, 0x00, 0x10, 0x00]"
  "DSU_number2buffer 1048578 4 = [0x02, 0x00, 0x10, 0x00]"
  by code_simp+

lemma messageType_of_cases:
  "messageType_of key = ProtocolVersionInformation \<longleftrightarrow> key = ''100000''"
  "messageType_of key = ConnectedControllers \<longleftrightarrow> key = ''100001''"
  "messageType_of key = ControllerData \<longleftrightarrow> key = ''100002''"
  by (auto simp: messageType_of_def)

lemma code_of_messageType:
  assumes len: "length code = 4"
    and t: "messageType_of (messageTypeHex code) \<in>
             {ProtocolVersionInformation, ConnectedControllers, ControllerData}"
  shows "DSU_messageType2buffer (messageType_of (messageTypeHex code)) = code"
proof -
  from len obtain b0 b1 b2 b3 where code: "code = [b0, b1, b2, b3]"
    by (auto simp: length_Suc_conv numeral_eq_Suc)
  have hex: "messageTypeHex code = hex_digits (nat (le_val code))"
    unfolding code by (rule messageTypeHex_bytes)
  have enc: "DSU_number2buffer (le_val code) 4 = code"
    using number2buffer_le_val [of code] len by simp
  have v: "hex_digits (nat (le_val code)) = hex_digits n \<Longrightarrow> le_val code = int n" for n
    using hex_digits_inj [of "nat (le_val code)" n] le_val_nonneg [of code] by simp
  from t consider
      "messageTypeHex code = ''100000''" "messageType_of (messageTypeHex code) = ProtocolVersionInformation"
    | "messageTypeHex code = ''100001''" "messageType_of (messageTypeHex code) = ConnectedControllers"
    | "messageTypeHex code = ''100002''" "messageType_of (messageTypeHex code) = ControllerData"
    by (auto simp: messageType_of_cases)
  then show ?thesis
  proof cases
    case 1
    then have "le_val code = 1048576"
      using v [of 1048576] by (simp add: hex hex_digits_codes)
    with enc 1 show ?thesis
      by (simp add: code_bytes messageType2buffer_bytes)
  next
    case 2
    then have "le_val code = 1048577"
      using v [of 1048577] by (simp add: hex hex_digits_codes)
    with enc 2 show ?thesis
      by (simp add: code_bytes messageType2buffer_bytes)
  next
    case 3
    then have "le_val code = 1048578"
      using v [of 1048578] by (simp add: hex hex_digits_codes)
    with enc 3 show ?thesis
      by (simp add: code_bytes messageType2buffer_bytes)
  qed
qed

section \<open>The round trip of a frame\<close>

lemma generate_parse:
  assumes "length data \<le> 65531"
  shows "\<exists>m. snd (DSU_parseMessage crc_buf (DSU_generateMessage crc_buf this type data)) = Inr m \<and>
     messageType m = messageType_of (messageTypeHex (DSU_messageType2buffer type)) \<and>
     message m = data"
proof -
  let ?s = "pad4 (DATA_CONTROLLERID this)"
  let ?code = "DSU_messageType2buffer type"
  let ?u = "frame [0, 0, 0, 0] ?s ?code data"
  let ?c = "word32_le (crc_buf ?u)"
  let ?f = "frame ?c ?s ?code data"
  have g: "DSU_generateMessage crc_buf this type data = ?f"
    by (rule DSU_generateMessage_frame)
  have "int (length ?code + length data) mod 65536 = int (length ?code + length data)"
    using assms by simp
  then have 1: "declared_length ?f = Some (int (length ?f) - int (min 16 (length ?f)))"
    by (simp add: frame_declared_length length_frame)
  have 2: "slice ?f 8 12 = word32_le (crc_buf (zero_checksum ?f))"
    by (simp add: frame_checksum frame_zero_checksum)
  from DSU_parseMessage_ok [of ?f crc_buf, OF 1 2] show ?thesis
    unfolding g by (simp add: frame_code frame_body)
qed

lemma generate_parse_too_long:
  assumes "65532 \<le> length data"
  shows "snd (DSU_parseMessage crc_buf (DSU_generateMessage crc_buf this type data)) =
     Inl (Error ''Packet length mismatch'')"
proof -
  let ?s = "pad4 (DATA_CONTROLLERID this)"
  let ?code = "DSU_messageType2buffer type"
  let ?f = "frame (word32_le (crc_buf (frame [0, 0, 0, 0] ?s ?code data))) ?s ?code data"
  have g: "DSU_generateMessage crc_buf this type data = ?f"
    by (rule DSU_generateMessage_frame)
  have "int (length ?code + length data) mod 65536 < 65536" by simp
  then have "int (length ?code + length data) mod 65536 \<noteq> int (length ?code + length data)"
    using assms by simp
  then have "declared_length ?f \<noteq> Some (int (length ?f) - int (min 16 (length ?f)))"
    by (simp add: frame_declared_length length_frame)
  then show ?thesis
    unfolding g by (rule DSU_parseMessage_length_mismatch)
qed

text \<open>
  C1, as amended. For every message kind other than \<open>ControllerMotor\<close> and \<open>Rumble\<close>
  and every body of at most 65531 bytes, \<open>DSU_parseMessage\<close> accepts the frame that
  \<open>DSU_generateMessage\<close> builds of them and returns that kind and that body. The map
  from kinds to codes of \<open>DSU_messageType2buffer\<close> and the map from codes to kinds of
  \<open>DSU_parseMessage\<close> are inverses of each other on the three kinds
  \<open>ProtocolVersionInformation\<close>, \<open>ConnectedControllers\<close> and \<open>ControllerData\<close>.
\<close>

theorem generateMessage_parseMessage:
  "(type \<noteq> ControllerMotor \<longrightarrow> type \<noteq> Rumble \<longrightarrow> length data \<le> 65531 \<longrightarrow>
      (\<exists>m. snd (DSU_parseMessage crc_buf (DSU_generateMessage crc_buf this type data)) = Inr m \<and>
           messageType m = type \<and> message m = data)) \<and>
   (type \<in> {ProtocolVersionInformation, ConnectedControllers, ControllerData} \<longrightarrow>
      messageType_of (messageTypeHex (DSU_messageType2buffer type)) = type) \<and>
   (length code = 4 \<longrightarrow>
    messageType_of (messageTypeHex code) \<in>
      {ProtocolVersionInformation, ConnectedControllers, ControllerData} \<longrightarrow>
      DSU_messageType2buffer (messageType_of (messageTypeHex code)) = code)"
proof (intro conjI impI)
  assume "type \<noteq> ControllerMotor" "type \<noteq> Rumble" and len: "length data \<le> 65531"
  then have "messageType_of (messageTypeHex (DSU_messageType2buffer type)) = type"
    by (cases type) (simp_all add: messageType_roundtrip)
  with generate_parse [OF len, of crc_buf this type]
  show "\<exists>m. snd (DSU_parseMessage crc_buf (DSU_generateMessage crc_buf this type data)) = Inr m \<and>
           messageType m = type \<and> message m = data"
    by simp
next
  assume "type \<in> {ProtocolVersionInformation, ConnectedControllers, ControllerData}"
  then show "messageType_of (messageTypeHex (DSU_messageType2buffer type)) = type"
    by (auto simp: messageType_roundtrip)
next
  assume "length code = 4"
    and "messageType_of (messageTypeHex code) \<in>
      {ProtocolVersionInformation, ConnectedControllers, ControllerData}"
  then show "DSU_messageType2buffer (messageType_of (messageTypeHex code)) = code"
    by (rule code_of_messageType)
qed

theorem generateMessage_parseMessage_witness:
  "ControllerData \<noteq> ControllerMotor \<and> ControllerData \<noteq> Rumble \<and>
   length [0x01, 0x02 :: byte] \<le> 65531 \<and>
   ControllerData \<in> {ProtocolVersionInformation, ConnectedControllers, ControllerData} \<and>
   length [0x02, 0x00, 0x10, 0x00 :: byte] = 4 \<and>
   messageType_of (messageTypeHex [0x02, 0x00, 0x10, 0x00]) \<in>
     {ProtocolVersionInformation, ConnectedControllers, ControllerData} \<and>
   (\<exists>m. snd (DSU_parseMessage crc32_buf
              (DSU_generateMessage crc32_buf
                 (new_DSUServer [0xAA, 0xBB, 0xCC, 0xDD] :: 32 word DSUServer)
                 ControllerData [0x01, 0x02])) = Inr m \<and>
        messageType m = ControllerData \<and> message m = [0x01, 0x02]) \<and>
   messageType_of (messageTypeHex (DSU_messageType2buffer ControllerData)) = ControllerData \<and>
   DSU_messageType2buffer (messageType_of (messageTypeHex [0x02, 0x00, 0x10, 0x00])) =
     [0x02, 0x00, 0x10, 0x00]"
proof -
  have t: "messageType_of (messageTypeHex [0x02, 0x00, 0x10, 0x00]) = ControllerData"
    by (simp add: messageTypeHex_bytes hex_digits_codes messageType_of_def)
  show ?thesis
    using generateMessage_parseMessage [of ControllerData "[0x01, 0x02]" crc32_buf
        "new_DSUServer [0xAA, 0xBB, 0xCC, 0xDD] :: 32 word DSUServer" "[0x02, 0x00, 0x10, 0x00]"]
    by (simp add: t)
qed

theorem generateMessage_parseMessage_counterexample:
  "DSU_parseMessage crc32_buf
     (DSU_generateMessage crc32_buf (new_DSUServer [0xAA, 0xBB, 0xCC, 0xDD] :: 32 word DSUServer)
        ControllerMotor []) =
   ([0x44, 0x53, 0x55, 0x53, 0xE9, 0x03, 0x04, 0x00, 0, 0, 0, 0, 0xAA, 0xBB, 0xCC, 0xDD,
     0xB1, 0xAD, 0x01, 0x00],
    Inr \<lparr> header = \<lparr> dsuType = [0x44, 0x53, 0x55, 0x53], version = Some 1001,
                       packetLength = Some 4, CRC32 = ''a0b35633'',
                       senderID = Some 3721182122 \<rparr>,
          messageType = Unknown, message = [] \<rparr>) \<and>
   snd (DSU_parseMessage crc32_buf
     (DSU_generateMessage crc32_buf (new_DSUServer [0xAA, 0xBB, 0xCC, 0xDD] :: 32 word DSUServer)
        ProtocolVersionInformation (replicate 65532 0))) =
   Inl (Error ''Packet length mismatch'')"
proof
  have crc: "crc32_buf [0x44, 0x53, 0x55, 0x53, 0xE9, 0x03, 0x04, 0x00, 0, 0, 0, 0,
      0xAA, 0xBB, 0xCC, 0xDD, 0xB1, 0xAD, 0x01, 0x00] = 0x3356B3A0"
    by (simp add: crc32_defs)
  have g: "DSU_generateMessage crc32_buf (new_DSUServer [0xAA, 0xBB, 0xCC, 0xDD] :: 32 word DSUServer)
        ControllerMotor [] =
      [0x44, 0x53, 0x55, 0x53, 0xE9, 0x03, 0x04, 0x00, 0xA0, 0xB3, 0x56, 0x33,
       0xAA, 0xBB, 0xCC, 0xDD, 0xB1, 0xAD, 0x01, 0x00]"
    by (simp add: DSU_generateMessage_frame frame_def pad4_def new_DSUServer_def DSUS_def
        messageType2buffer_bytes number2buffer_2 crc word32_le_def)
  show "DSU_parseMessage crc32_buf
     (DSU_generateMessage crc32_buf (new_DSUServer [0xAA, 0xBB, 0xCC, 0xDD] :: 32 word DSUServer)
        ControllerMotor []) =
   ([0x44, 0x53, 0x55, 0x53, 0xE9, 0x03, 0x04, 0x00, 0, 0, 0, 0, 0xAA, 0xBB, 0xCC, 0xDD,
     0xB1, 0xAD, 0x01, 0x00],
    Inr \<lparr> header = \<lparr> dsuType = [0x44, 0x53, 0x55, 0x53], version = Some 1001,
                       packetLength = Some 4, CRC32 = ''a0b35633'',
                       senderID = Some 3721182122 \<rparr>,
          messageType = Unknown, message = [] \<rparr>)"
    unfolding g
    by (simp add: DSU_parseMessage_def Let_def DSU_calcCRC32_eq crc slice_def byte_at_def
        num_add_def num_mul_def word32_le_def toString_hex_def hex_digit_def
        messageTypeHex_bytes hex_digits_codes messageType_of_def)
next
  show "snd (DSU_parseMessage crc32_buf
     (DSU_generateMessage crc32_buf (new_DSUServer [0xAA, 0xBB, 0xCC, 0xDD] :: 32 word DSUServer)
        ProtocolVersionInformation (replicate 65532 0))) =
   Inl (Error ''Packet length mismatch'')"
    by (rule generate_parse_too_long) simp
qed

section \<open>The checksum of a frame\<close>

text \<open>
  C6. \<open>DSU_calcCRC32\<close> zeroes bytes 8 to 11 of the frame, takes the signed checksum of
  the result, adds \<open>2^32\<close> when it is negative, which gives a number in
  \<open>[0, 2^32)\<close>, and returns the four little-endian bytes of that number, written in
  hexadecimal. \<open>DSU_generateMessage\<close> puts those four bytes into the checksum field of
  the frame it builds, and \<open>DSU_parseMessage\<close>, once the length check has passed,
  fails exactly when the checksum field of the datagram differs from them.
\<close>

theorem DSU_calcCRC32_checksum:
  "0 \<le> checksum_of crc_buf msg \<and> checksum_of crc_buf msg < 2 ^ 32 \<and>
   DSU_calcCRC32 crc_buf msg =
     (zero_checksum msg, toString_hex (DSU_number2buffer (checksum_of crc_buf msg) 4)) \<and>
   slice (DSU_generateMessage crc_buf this type data) 8 12 =
     DSU_number2buffer (checksum_of crc_buf (DSU_generateMessage crc_buf this type data)) 4 \<and>
   (declared_length msg = Some (int (length msg) - int (min 16 (length msg))) \<longrightarrow>
      (isl (snd (DSU_parseMessage crc_buf msg)) \<longleftrightarrow>
       slice msg 8 12 \<noteq> DSU_number2buffer (checksum_of crc_buf msg) 4))"
proof -
  let ?f = "DSU_generateMessage crc_buf this type data"
  have "slice ?f 8 12 = word32_le (crc_buf (zero_checksum ?f))"
    by (simp add: DSU_generateMessage_frame frame_checksum frame_zero_checksum)
  then show ?thesis
    using uint_lt2p [of "crc_buf (zero_checksum msg)"] DSU_parseMessage_isl [of msg crc_buf]
    by (simp add: checksum_of_uint number2buffer_uint32 DSU_calcCRC32_eq zero_checksum_eq)
qed

theorem DSU_calcCRC32_checksum_witness:
  "declared_length [0x44, 0x53, 0x55, 0x53, 0xE9, 0x03, 0x04, 0x00, 0xA0, 0xB3, 0x56, 0x33,
       0xAA, 0xBB, 0xCC, 0xDD, 0xB1, 0xAD, 0x01, 0x00] = Some (int 20 - int (min 16 20)) \<and>
   (isl (snd (DSU_parseMessage crc32_buf
        [0x44, 0x53, 0x55, 0x53, 0xE9, 0x03, 0x04, 0x00, 0xA0, 0xB3, 0x56, 0x33,
         0xAA, 0xBB, 0xCC, 0xDD, 0xB1, 0xAD, 0x01, 0x00])) \<longleftrightarrow>
    slice [0x44, 0x53, 0x55, 0x53, 0xE9, 0x03, 0x04, 0x00, 0xA0, 0xB3, 0x56, 0x33,
         0xAA, 0xBB, 0xCC, 0xDD, 0xB1, 0xAD, 0x01, 0x00] 8 12 \<noteq>
    DSU_number2buffer (checksum_of crc32_buf
        [0x44, 0x53, 0x55, 0x53, 0xE9, 0x03, 0x04, 0x00, 0xA0, 0xB3, 0x56, 0x33,
         0xAA, 0xBB, 0xCC, 0xDD, 0xB1, 0xAD, 0x01, 0x00]) 4)"
proof -
  have h: "declared_length [0x44, 0x53, 0x55, 0x53, 0xE9, 0x03, 0x04, 0x00, 0xA0, 0xB3, 0x56, 0x33,
       0xAA, 0xBB, 0xCC, 0xDD, 0xB1, 0xAD, 0x01, 0x00] = Some (int 20 - int (min 16 20))"
    by (simp add: declared_length_def byte_at_def num_add_def num_mul_def)
  have l: "length [0x44, 0x53, 0x55, 0x53, 0xE9, 0x03, 0x04, 0x00, 0xA0, 0xB3, 0x56, 0x33,
       0xAA, 0xBB, 0xCC, 0xDD, 0xB1, 0xAD, 0x01, 0x00 :: byte] = 20"
    by simp
  show ?thesis
    using DSU_calcCRC32_checksum [of crc32_buf
        "[0x44, 0x53, 0x55, 0x53, 0xE9, 0x03, 0x04, 0x00, 0xA0, 0xB3, 0x56, 0x33,
         0xAA, 0xBB, 0xCC, 0xDD, 0xB1, 0xAD, 0x01, 0x00]"] h
    unfolding l by blast
qed

lemma UDP_DefaultHandler_datagram:
  "datagram (UDP_DefaultHandler crc_buf float_bits this msg) = zero_checksum msg"
proof -
  obtain m r where p: "DSU_parseMessage crc_buf msg = (m, r)" by (cases "DSU_parseMessage crc_buf msg")
  with DSU_parseMessage_fst [of crc_buf msg] have m: "m = zero_checksum msg" by simp
  show ?thesis
  proof (cases r)
    case (Inl e)
    then show ?thesis by (simp add: UDP_DefaultHandler_def p m)
  next
    case (Inr pm)
    then show ?thesis
      by (cases "messageType pm")
        (simp_all add: UDP_DefaultHandler_def p m Let_def split_def split: option.split sum.split)
  qed
qed

text \<open>
  C7. \<open>DSU_calcCRC32\<close>, and so \<open>DSU_parseMessage\<close> and the handler, leave the
  caller's buffer with bytes 8 to 11 set to zero and every other byte as it was, whether
  the parse succeeds or fails: a datagram of at least 12 bytes holds four zero bytes in its
  checksum field afterwards.
\<close>

theorem checksum_field_overwritten:
  "fst (DSU_calcCRC32 crc_buf msg) = zero_checksum msg \<and>
   fst (DSU_parseMessage crc_buf msg) = zero_checksum msg \<and>
   datagram (UDP_DefaultHandler crc_buf float_bits this msg) = zero_checksum msg \<and>
   length (zero_checksum msg) = length msg \<and>
   (i < length msg \<longrightarrow> zero_checksum msg ! i = (if 8 \<le> i \<and> i < 12 then 0 else msg ! i)) \<and>
   (12 \<le> length msg \<longrightarrow> slice (fst (DSU_parseMessage crc_buf msg)) 8 12 = [0, 0, 0, 0])"
proof -
  have "12 \<le> length msg \<Longrightarrow> slice (zero_checksum msg) 8 12 = [0, 0, 0, 0]"
    by (simp add: zero_checksum_def slice_def numeral_eq_Suc)
  then show ?thesis
    by (simp add: DSU_calcCRC32_eq zero_checksum_eq DSU_parseMessage_fst nth_zero_checksum
        UDP_DefaultHandler_datagram)
qed

theorem checksum_field_overwritten_witness:
  "(9::nat) < length [0x44, 0x53, 0x55, 0x53, 0xE9, 0x03, 0x04, 0x00, 0xA0, 0xB3, 0x56, 0x33,
         0xAA, 0xBB, 0xCC, 0xDD, 0xB1, 0xAD, 0x01, 0x00 :: byte] \<and>
   12 \<le> length [0x44, 0x53, 0x55, 0x53, 0xE9, 0x03, 0x04, 0x00, 0xA0, 0xB3, 0x56, 0x33,
         0xAA, 0xBB, 0xCC, 0xDD, 0xB1, 0xAD, 0x01, 0x00 :: byte] \<and>
   fst (DSU_parseMessage crc32_buf
        [0x44, 0x53, 0x55, 0x53, 0xE9, 0x03, 0x04, 0x00, 0xA0, 0xB3, 0x56, 0x33,
         0xAA, 0xBB, 0xCC, 0xDD, 0xB1, 0xAD, 0x01, 0x00]) =
     [0x44, 0x53, 0x55, 0x53, 0xE9, 0x03, 0x04, 0x00, 0, 0, 0, 0,
      0xAA, 0xBB, 0xCC, 0xDD, 0xB1, 0xAD, 0x01, 0x00] \<and>
   zero_checksum [0x44, 0x53, 0x55, 0x53, 0xE9, 0x03, 0x04, 0x00, 0xA0, 0xB3, 0x56, 0x33,
         0xAA, 0xBB, 0xCC, 0xDD, 0xB1, 0xAD, 0x01, 0x00] ! 9 = 0 \<and>
   slice (fst (DSU_parseMessage crc32_buf
        [0x44, 0x53, 0x55, 0x53, 0xE9, 0x03, 0x04, 0x00, 0xA0, 0xB3, 0x56, 0x33,
         0xAA, 0xBB, 0xCC, 0xDD, 0xB1, 0xAD, 0x01, 0x00])) 8 12 = [0, 0, 0, 0]"
proof -
  have z: "zero_checksum [0x44, 0x53, 0x55, 0x53, 0xE9, 0x03, 0x04, 0x00, 0xA0, 0xB3, 0x56, 0x33,
         0xAA, 0xBB, 0xCC, 0xDD, 0xB1, 0xAD, 0x01, 0x00] =
     [0x44, 0x53, 0x55, 0x53, 0xE9, 0x03, 0x04, 0x00, 0, 0, 0, 0,
      0xAA, 0xBB, 0xCC, 0xDD, 0xB1, 0xAD, 0x01, 0x00]"
    by (simp add: zero_checksum_def)
  have l: "(9::nat) < length [0x44, 0x53, 0x55, 0x53, 0xE9, 0x03, 0x04, 0x00, 0xA0, 0xB3, 0x56, 0x33,
         0xAA, 0xBB, 0xCC, 0xDD, 0xB1, 0xAD, 0x01, 0x00 :: byte]"
     "12 \<le> length [0x44, 0x53, 0x55, 0x53, 0xE9, 0x03, 0x04, 0x00, 0xA0, 0xB3, 0x56, 0x33,
         0xAA, 0xBB, 0xCC, 0xDD, 0xB1, 0xAD, 0x01, 0x00 :: byte]"
    by simp_all
  have c: "(if 8 \<le> (9::nat) \<and> (9::nat) < 12 then (0::byte) else x) = 0" for x
    by simp
  show ?thesis
    using checksum_field_overwritten [of crc32_buf
        "[0x44, 0x53, 0x55, 0x53, 0xE9, 0x03, 0x04, 0x00, 0xA0, 0xB3, 0x56, 0x33,
         0xAA, 0xBB, 0xCC, 0xDD, 0xB1, 0xAD, 0x01, 0x00]" id "new_DSUServer [] :: 32 word DSUServer" 9] l
    unfolding c z by blast
qed

section \<open>The slot summary\<close>

lemma DSU_createControllerData_layout:
  assumes "length (DATA_CONTROLLERID this) = 4"
  shows "DSU_createControllerData this (Some slot) enabled =
     (if enabled then [ToUint8 slot, 0x02, 0x02, 0x01] @ DATA_CONTROLLERID this @ [0, 0, 0x05, 0]
      else ToUint8 slot # replicate 11 0)"
proof -
  have a: "alloc 12 = [0, 0, 0, 0, 0, 0, 0, 0, 0, 0, 0, 0]"
    by (simp add: alloc_def numeral_eq_Suc)
  have p: "put (DATA_CONTROLLERID this) 5 (Some slot) = DATA_CONTROLLERID this"
    using assms by (simp add: put_def list_update_beyond)
  have r: "put (alloc 12) 0 (Some slot) = [ToUint8 slot, 0, 0, 0, 0, 0, 0, 0, 0, 0, 0, 0]"
    by (simp add: a put_def)
  have u: "[ToUint8 slot, 0, 0, 0, 0, 0, 0, 0, 0, 0, 0, 0][1 := 2, 2 := 2, 3 := 1, 10 := 5]
      = [ToUint8 slot, 2, 2, 1] @ [0, 0, 0, 0] @ [0, 0, 5, 0]"
    by simp
  have c: "copy (DATA_CONTROLLERID this) ([ToUint8 slot, 2, 2, 1] @ [0, 0, 0, 0] @ [0, 0, 5, 0]) 4
      = [ToUint8 slot, 2, 2, 1] @ DATA_CONTROLLERID this @ [0, 0, 5, 0]"
    by (rule copy_replace) (simp_all add: assms)
  have l: "length ([ToUint8 slot, 2, 2, 1] @ DATA_CONTROLLERID this) = 8"
    by (simp add: assms)
  have f: "([ToUint8 slot, 2, 2, 1] @ DATA_CONTROLLERID this @ [0, 0, 5, 0])[11 := 0]
      = [ToUint8 slot, 2, 2, 1] @ DATA_CONTROLLERID this @ [0, 0, 5, 0]"
    using l by (simp add: list_update_append flip: append_assoc)
  have n: "replicate 11 (0::byte) = [0, 0, 0, 0, 0, 0, 0, 0, 0, 0, 0]"
    by (simp add: numeral_eq_Suc)
  show ?thesis
    unfolding DSU_createControllerData_def Let_def r p u c f n by simp
qed

text \<open>
  C3 has bytes 4 to 9 of the summary of a connected slot hold the sender identifier with
  its last byte replaced by the slot index; the rest of what it says is the lemma above.
  Here is the summary of slot 1 on a server whose identifier is \<open>AA BB CC DD\<close>: bytes 4
  to 9 are the four bytes of the identifier and two zero bytes, and the slot index is in
  none of them.
\<close>

theorem createControllerData_identifier:
  "DSU_createControllerData (new_DSUServer [0xAA, 0xBB, 0xCC, 0xDD] :: 32 word DSUServer)
     (Some 1) True =
   [0x01, 0x02, 0x02, 0x01, 0xAA, 0xBB, 0xCC, 0xDD, 0x00, 0x00, 0x05, 0x00]"
proof -
  let ?srv = "new_DSUServer [0xAA, 0xBB, 0xCC, 0xDD] :: 32 word DSUServer"
  have i: "DATA_CONTROLLERID ?srv = [0xAA, 0xBB, 0xCC, 0xDD]"
    by (simp add: new_DSUServer_def)
  then have "length (DATA_CONTROLLERID ?srv) = 4"
    by simp
  from DSU_createControllerData_layout [OF this, of 1 True] show ?thesis
    by (simp add: i ToUint8_def)
qed

section \<open>The controller state store\<close>

lemma array_get_array_set:
  "array_get (array_set xs i v) j = (if j = int i then Some v else array_get xs j)"
proof (cases "i < length xs")
  case True
  then show ?thesis
    by (auto simp: array_get_def array_set_def nth_list_update)
next
  case False
  then have len: "length (array_set xs i v) = i + 1"
    by (simp add: array_set_def)
  show ?thesis
  proof (cases "0 \<le> j \<and> nat j < i + 1")
    case out: False
    with False show ?thesis
      by (auto simp: array_get_def len)
  next
    case True
    then consider "nat j < length xs" | "length xs \<le> nat j" "nat j < i" | "nat j = i" by linarith
    then show ?thesis
    proof cases
      case 1
      with True False show ?thesis
        by (auto simp: array_get_def array_set_def nth_append)
    next
      case 2
      with True False show ?thesis
        by (auto simp: array_get_def array_set_def nth_append)
    next
      case 3
      with True False show ?thesis
        by (auto simp: array_get_def array_set_def nth_append)
    qed
  qed
qed

lemma length_array_set: "i < length xs \<Longrightarrow> length (array_set xs i v) = length xs"
  by (simp add: array_set_def)

lemma four_slots_new: "four_slots (new_DSUServer generatedID)"
  by (simp add: four_slots_def new_DSUServer_def)

lemma four_slots_setControllerState:
  "four_slots this \<Longrightarrow> four_slots (fst (DSU_setControllerState this index state))"
  by (auto simp: four_slots_def DSU_setControllerState_def array_set_def list_all_iff
      dest: set_update_subset_insert [THEN subsetD])

lemma four_slots_setControllersState:
  "four_slots this \<Longrightarrow> four_slots (fst (DSU_setControllersState this states))"
  by (auto simp: four_slots_def DSU_setControllersState_def list_all_iff)

lemma four_slots_get:
  "four_slots this \<Longrightarrow> 0 \<le> i \<Longrightarrow> i \<le> 3 \<Longrightarrow> \<exists>state. DSU_getControllerState this i = Some state"
  by (auto simp: four_slots_def DSU_getControllerState_def array_get_def list_all_iff)

lemma four_slots_get_beyond:
  "length (DATA_controllerStates this) = 4 \<Longrightarrow> 3 < i \<Longrightarrow> DSU_getControllerState this i = None"
  by (auto simp: DSU_getControllerState_def array_get_def)

lemma example_server_eq:
  "example_server =
     \<lparr> DATA_CONTROLLERID = [0xAA, 0xBB, 0xCC, 0xDD],
       DATA_controllerStates =
         [Some (DSU_dummyState\<lparr>connected := True\<rparr>), Some DSU_dummyState,
          Some DSU_dummyState, Some DSU_dummyState] \<rparr>"
  by (simp add: example_server_def DSU_setControllerState_def new_DSUServer_def array_set_def)

lemma four_slots_example_server: "four_slots example_server"
  unfolding example_server_def by (intro four_slots_setControllerState four_slots_new)

text \<open>
  C9. \<open>DSU_setControllerState\<close> throws for every index below 0 or above 3, and
  \<open>DSU_setControllersState\<close> for every array whose length is not 4; the server is then
  as it was. For an index from 0 to 3 the state of that slot is the new one afterwards and
  every other slot is as before; for an array of four states the store is that array.
\<close>

theorem setControllerState_errors:
  "(index < 0 \<or> 3 < index \<longrightarrow>
      DSU_setControllerState this index state = (this, Some (Error ''Invalid controller index''))) \<and>
   (length states \<noteq> 4 \<longrightarrow>
      DSU_setControllersState this states =
        (this, Some (Error ''Invalid controller state array length''))) \<and>
   (0 \<le> index \<longrightarrow> index \<le> 3 \<longrightarrow>
      snd (DSU_setControllerState this index state) = None \<and>
      DSU_getControllerState (fst (DSU_setControllerState this index state)) index = Some state \<and>
      (j \<noteq> index \<longrightarrow>
         DSU_getControllerState (fst (DSU_setControllerState this index state)) j =
         DSU_getControllerState this j) \<and>
      (length (DATA_controllerStates this) = 4 \<longrightarrow>
         length (DATA_controllerStates (fst (DSU_setControllerState this index state))) = 4) \<and>
      DATA_CONTROLLERID (fst (DSU_setControllerState this index state)) = DATA_CONTROLLERID this) \<and>
   (length states = 4 \<longrightarrow>
      snd (DSU_setControllersState this states) = None \<and>
      DATA_controllerStates (fst (DSU_setControllersState this states)) = map Some states \<and>
      DATA_CONTROLLERID (fst (DSU_setControllersState this states)) = DATA_CONTROLLERID this)"
  by (auto simp: DSU_setControllerState_def DSU_setControllersState_def DSU_getControllerState_def
      array_get_array_set length_array_set)

theorem setControllerState_errors_witness:
  "DSU_setControllerState example_server 5 DSU_dummyState =
     (example_server, Some (Error ''Invalid controller index'')) \<and>
   DSU_setControllerState example_server (- 1) DSU_dummyState =
     (example_server, Some (Error ''Invalid controller index'')) \<and>
   DSU_setControllersState example_server [DSU_dummyState, DSU_dummyState, DSU_dummyState] =
     (example_server, Some (Error ''Invalid controller state array length'')) \<and>
   snd (DSU_setControllerState example_server 2 (DSU_dummyState\<lparr>connected := True\<rparr>)) = None \<and>
   DSU_getControllerState
     (fst (DSU_setControllerState example_server 2 (DSU_dummyState\<lparr>connected := True\<rparr>))) 2 =
     Some (DSU_dummyState\<lparr>connected := True\<rparr>) \<and>
   DSU_getControllerState
     (fst (DSU_setControllerState example_server 2 (DSU_dummyState\<lparr>connected := True\<rparr>))) 0 =
     DSU_getControllerState example_server 0 \<and>
   length (DATA_controllerStates
     (fst (DSU_setControllerState example_server 2 (DSU_dummyState\<lparr>connected := True\<rparr>)))) = 4 \<and>
   snd (DSU_setControllersState example_server
          [DSU_dummyState, DSU_dummyState, DSU_dummyState, DSU_dummyState]) = None \<and>
   DATA_controllerStates (fst (DSU_setControllersState example_server
          [DSU_dummyState, DSU_dummyState, DSU_dummyState, DSU_dummyState])) =
     map Some [DSU_dummyState, DSU_dummyState, DSU_dummyState, DSU_dummyState]"
proof -
  have l: "length (DATA_controllerStates example_server) = 4"
    using four_slots_example_server by (simp add: four_slots_def)
  show ?thesis
    using setControllerState_errors [of 5 example_server DSU_dummyState
        "[DSU_dummyState, DSU_dummyState, DSU_dummyState]" 0]
      setControllerState_errors [of "- 1" example_server DSU_dummyState "[]" 0]
      setControllerState_errors [of 2 example_server "DSU_dummyState\<lparr>connected := True\<rparr>"
        "[DSU_dummyState, DSU_dummyState, DSU_dummyState, DSU_dummyState]" 0]
    by (simp add: l)
qed

section \<open>The handler\<close>

subsection \<open>The example datagrams\<close>

lemma parse_query_slot_2:
  "DSU_parseMessage crc32_buf query_slot_2 =
     (zero_checksum query_slot_2,
      Inr \<lparr> header = \<lparr> dsuType = [0x44, 0x53, 0x55, 0x43], version = Some 1001,
                         packetLength = Some 12, CRC32 = ''7558e98e'',
                         senderID = Some 0x44332211 \<rparr>,
            messageType = ControllerData,
            message = [0x01, 0x02, 0x00, 0x00, 0x00, 0x00, 0x00, 0x00] \<rparr>)"
proof -
  have z: "zero_checksum query_slot_2 =
     [0x44, 0x53, 0x55, 0x43, 0xE9, 0x03, 0x0C, 0x00, 0x00, 0x00, 0x00, 0x00,
      0x11, 0x22, 0x33, 0x44, 0x02, 0x00, 0x10, 0x00, 0x01, 0x02, 0x00, 0x00,
      0x00, 0x00, 0x00, 0x00]"
    by (simp add: zero_checksum_def query_slot_2_def)
  have crc: "crc32_buf (zero_checksum query_slot_2) = 0x8EE95875"
    unfolding z by (simp add: crc32_defs)
  show ?thesis
    unfolding DSU_parseMessage_def Let_def DSU_calcCRC32_eq zero_checksum_eq crc
    unfolding z
    by (simp add: query_slot_2_def slice_def byte_at_def
        num_add_def num_mul_def word32_le_def toString_hex_def hex_digit_def
        messageTypeHex_bytes hex_digits_codes messageType_of_def)
qed

lemma parse_query_identifier_3:
  "DSU_parseMessage crc32_buf query_identifier_3 =
     (zero_checksum query_identifier_3,
      Inr \<lparr> header = \<lparr> dsuType = [0x44, 0x53, 0x55, 0x43], version = Some 1001,
                         packetLength = Some 12, CRC32 = ''55e3aa68'',
                         senderID = Some 0x44332211 \<rparr>,
            messageType = ControllerData,
            message = [0x02, 0x00, 0xAA, 0xBB, 0xCC, 0xDD, 0x00, 0x03] \<rparr>)"
proof -
  have z: "zero_checksum query_identifier_3 =
     [0x44, 0x53, 0x55, 0x43, 0xE9, 0x03, 0x0C, 0x00, 0x00, 0x00, 0x00, 0x00,
      0x11, 0x22, 0x33, 0x44, 0x02, 0x00, 0x10, 0x00, 0x02, 0x00, 0xAA, 0xBB,
      0xCC, 0xDD, 0x00, 0x03]"
    by (simp add: zero_checksum_def query_identifier_3_def)
  have crc: "crc32_buf (zero_checksum query_identifier_3) = 0x68AAE355"
    unfolding z by (simp add: crc32_defs)
  show ?thesis
    unfolding DSU_parseMessage_def Let_def DSU_calcCRC32_eq zero_checksum_eq crc
    unfolding z
    by (simp add: query_identifier_3_def slice_def byte_at_def
        num_add_def num_mul_def word32_le_def toString_hex_def hex_digit_def
        messageTypeHex_bytes hex_digits_codes messageType_of_def)
qed

lemma parse_query_mode_9:
  "DSU_parseMessage crc32_buf query_mode_9 =
     (zero_checksum query_mode_9,
      Inr \<lparr> header = \<lparr> dsuType = [0x44, 0x53, 0x55, 0x43], version = Some 1001,
                         packetLength = Some 12, CRC32 = ''e95293ca'',
                         senderID = Some 0x44332211 \<rparr>,
            messageType = ControllerData,
            message = [0x09, 0x00, 0x00, 0x00, 0x00, 0x00, 0x00, 0x00] \<rparr>)"
proof -
  have z: "zero_checksum query_mode_9 =
     [0x44, 0x53, 0x55, 0x43, 0xE9, 0x03, 0x0C, 0x00, 0x00, 0x00, 0x00, 0x00,
      0x11, 0x22, 0x33, 0x44, 0x02, 0x00, 0x10, 0x00, 0x09, 0x00, 0x00, 0x00,
      0x00, 0x00, 0x00, 0x00]"
    by (simp add: zero_checksum_def query_mode_9_def)
  have crc: "crc32_buf (zero_checksum query_mode_9) = 0xCA9352E9"
    unfolding z by (simp add: crc32_defs)
  show ?thesis
    unfolding DSU_parseMessage_def Let_def DSU_calcCRC32_eq zero_checksum_eq crc
    unfolding z
    by (simp add: query_mode_9_def slice_def byte_at_def
        num_add_def num_mul_def word32_le_def toString_hex_def hex_digit_def
        messageTypeHex_bytes hex_digits_codes messageType_of_def)
qed

lemma parse_query_slot_4:
  "DSU_parseMessage crc32_buf query_slot_4 =
     (zero_checksum query_slot_4,
      Inr \<lparr> header = \<lparr> dsuType = [0x44, 0x53, 0x55, 0x43], version = Some 1001,
                         packetLength = Some 12, CRC32 = ''4f6d39ed'',
                         senderID = Some 0x44332211 \<rparr>,
            messageType = ControllerData,
            message = [0x01, 0x04, 0x00, 0x00, 0x00, 0x00, 0x00, 0x00] \<rparr>)"
proof -
  have z: "zero_checksum query_slot_4 =
     [0x44, 0x53, 0x55, 0x43, 0xE9, 0x03, 0x0C, 0x00, 0x00, 0x00, 0x00, 0x00,
      0x11, 0x22, 0x33, 0x44, 0x02, 0x00, 0x10, 0x00, 0x01, 0x04, 0x00, 0x00,
      0x00, 0x00, 0x00, 0x00]"
    by (simp add: zero_checksum_def query_slot_4_def)
  have crc: "crc32_buf (zero_checksum query_slot_4) = 0xED396D4F"
    unfolding z by (simp add: crc32_defs)
  show ?thesis
    unfolding DSU_parseMessage_def Let_def DSU_calcCRC32_eq zero_checksum_eq crc
    unfolding z
    by (simp add: query_slot_4_def slice_def byte_at_def
        num_add_def num_mul_def word32_le_def toString_hex_def hex_digit_def
        messageTypeHex_bytes hex_digits_codes messageType_of_def)
qed

lemma parse_query_connected_2:
  "DSU_parseMessage crc32_buf query_connected_2 =
     (zero_checksum query_connected_2,
      Inr \<lparr> header = \<lparr> dsuType = [0x44, 0x53, 0x55, 0x43], version = Some 1001,
                         packetLength = Some 9, CRC32 = ''0a768646'',
                         senderID = Some 0x44332211 \<rparr>,
            messageType = ConnectedControllers,
            message = [0x01, 0x00, 0x00, 0x00, 0x02] \<rparr>)"
proof -
  have z: "zero_checksum query_connected_2 =
     [0x44, 0x53, 0x55, 0x43, 0xE9, 0x03, 0x09, 0x00, 0x00, 0x00, 0x00, 0x00,
      0x11, 0x22, 0x33, 0x44, 0x01, 0x00, 0x10, 0x00, 0x01, 0x00, 0x00, 0x00,
      0x02]"
    by (simp add: zero_checksum_def query_connected_2_def)
  have crc: "crc32_buf (zero_checksum query_connected_2) = 0x4686760A"
    unfolding z by (simp add: crc32_defs)
  show ?thesis
    unfolding DSU_parseMessage_def Let_def DSU_calcCRC32_eq zero_checksum_eq crc
    unfolding z
    by (simp add: query_connected_2_def slice_def byte_at_def
        num_add_def num_mul_def word32_le_def toString_hex_def hex_digit_def
        messageTypeHex_bytes hex_digits_codes messageType_of_def)
qed

subsection \<open>Controller-data queries\<close>

lemma length_DSU_state2buffer:
  "DSU_state2buffer float_bits this slot arg = Inr payload \<Longrightarrow> length payload = 80"
  by (auto simp: DSU_state2buffer_def Let_def split: option.splits)

lemma DSU_state2buffer_None:
  "DSU_state2buffer float_bits this slot None = Inl e \<longleftrightarrow>
     e = TypeError \<and> DSU_getControllerState this slot = None"
  by (auto simp: DSU_state2buffer_def Let_def split: option.splits)

lemma DSU_state2buffer_Some:
  "DSU_getControllerState this slot = Some state \<Longrightarrow>
   \<exists>payload. DSU_state2buffer float_bits this slot None = Inr payload"
  by (simp add: DSU_state2buffer_def Let_def)

lemma handler_ControllerData:
  assumes "DSU_parseMessage crc_buf msg = (msg', Inr m)" and "messageType m = ControllerData"
  shows "UDP_DefaultHandler crc_buf float_bits this msg =
     (if byte_at (message m) 0 \<noteq> Some 1 \<and> byte_at (message m) 0 \<noteq> Some 2
      then \<lparr> server = this, datagram = msg', sent = [], caught = None \<rparr>
      else case (if byte_at (message m) 0 = Some 1 then byte_at (message m) 1
                 else byte_at (message m) 7) of
             None \<Rightarrow> \<lparr> server = this, datagram = msg', sent = [], caught = None \<rparr>
           | Some index \<Rightarrow>
               (case DSU_state2buffer float_bits this index None of
                  Inl e \<Rightarrow> \<lparr> server = this, datagram = msg', sent = [], caught = Some e \<rparr>
                | Inr payload \<Rightarrow>
                    \<lparr> server = this, datagram = msg',
                      sent = [DSU_generateMessage crc_buf this ControllerData payload],
                      caught = None \<rparr>))"
  using assms by (simp add: UDP_DefaultHandler_def Let_def)

text \<open>
  C4, as amended. For every valid controller-data query and a store of four states: if
  body byte 0 is 1 and body byte 1 is a slot index from 0 to 3, or body byte 0 is 2 and
  body byte 7 is one, the handler sends exactly one frame, a controller-data frame whose
  body is the 80-byte payload that \<open>DSU_state2buffer\<close> makes of that slot of the store,
  and no error is thrown; if body byte 0 is neither 1 nor 2, the handler sends nothing and
  no error is thrown.
\<close>

theorem ControllerData_query:
  assumes "DSU_parseMessage crc_buf msg = (msg', Inr m)"
    and "messageType m = ControllerData"
    and "four_slots this"
  shows
   "(byte_at (message m) 0 = Some 1 \<and> byte_at (message m) 1 = Some i \<or>
     byte_at (message m) 0 = Some 2 \<and> byte_at (message m) 7 = Some i \<longrightarrow>
     i \<le> 3 \<longrightarrow>
       (\<exists>payload.
          DSU_state2buffer float_bits this i None = Inr payload \<and> length payload = 80 \<and>
          sent (UDP_DefaultHandler crc_buf float_bits this msg) =
            [DSU_generateMessage crc_buf this ControllerData payload] \<and>
          slice (DSU_generateMessage crc_buf this ControllerData payload) 16 20 =
            DSU_messageType2buffer ControllerData \<and>
          drop 20 (DSU_generateMessage crc_buf this ControllerData payload) = payload) \<and>
       caught (UDP_DefaultHandler crc_buf float_bits this msg) = None) \<and>
    (byte_at (message m) 0 \<noteq> Some 1 \<longrightarrow> byte_at (message m) 0 \<noteq> Some 2 \<longrightarrow>
       sent (UDP_DefaultHandler crc_buf float_bits this msg) = [] \<and>
       caught (UDP_DefaultHandler crc_buf float_bits this msg) = None)"
proof (intro conjI impI)
  assume sel: "byte_at (message m) 0 = Some 1 \<and> byte_at (message m) 1 = Some i \<or>
     byte_at (message m) 0 = Some 2 \<and> byte_at (message m) 7 = Some i"
    and i: "i \<le> 3"
  from sel have "0 \<le> i"
    by (auto simp: byte_at_def split: if_splits)
  with four_slots_get [OF assms(3) _ i] obtain state
    where "DSU_getControllerState this i = Some state" by blast
  with DSU_state2buffer_Some obtain payload
    where p: "DSU_state2buffer float_bits this i None = Inr payload" by blast
  from sel p have h: "UDP_DefaultHandler crc_buf float_bits this msg =
      \<lparr> server = this, datagram = msg',
        sent = [DSU_generateMessage crc_buf this ControllerData payload], caught = None \<rparr>"
    unfolding handler_ControllerData [OF assms(1,2)] by auto
  from h show "caught (UDP_DefaultHandler crc_buf float_bits this msg) = None" by simp
  from h p show "\<exists>payload.
          DSU_state2buffer float_bits this i None = Inr payload \<and> length payload = 80 \<and>
          sent (UDP_DefaultHandler crc_buf float_bits this msg) =
            [DSU_generateMessage crc_buf this ControllerData payload] \<and>
          slice (DSU_generateMessage crc_buf this ControllerData payload) 16 20 =
            DSU_messageType2buffer ControllerData \<and>
          drop 20 (DSU_generateMessage crc_buf this ControllerData payload) = payload"
    by (simp add: length_DSU_state2buffer [OF p] generate_code generate_body)
next
  assume "byte_at (message m) 0 \<noteq> Some 1" "byte_at (message m) 0 \<noteq> Some 2"
  then show "sent (UDP_DefaultHandler crc_buf float_bits this msg) = []"
    and "caught (UDP_DefaultHandler crc_buf float_bits this msg) = None"
    unfolding handler_ControllerData [OF assms(1,2)] by simp_all
qed

theorem ControllerData_query_witness:
  "(\<exists>payload.
      DSU_state2buffer id example_server 2 None = Inr payload \<and> length payload = 80 \<and>
      sent (UDP_DefaultHandler crc32_buf id example_server query_slot_2) =
        [DSU_generateMessage crc32_buf example_server ControllerData payload] \<and>
      slice (DSU_generateMessage crc32_buf example_server ControllerData payload) 16 20 =
        DSU_messageType2buffer ControllerData \<and>
      drop 20 (DSU_generateMessage crc32_buf example_server ControllerData payload) = payload) \<and>
   caught (UDP_DefaultHandler crc32_buf id example_server query_slot_2) = None \<and>
   (\<exists>payload.
      DSU_state2buffer id example_server 3 None = Inr payload \<and> length payload = 80 \<and>
      sent (UDP_DefaultHandler crc32_buf id example_server query_identifier_3) =
        [DSU_generateMessage crc32_buf example_server ControllerData payload] \<and>
      slice (DSU_generateMessage crc32_buf example_server ControllerData payload) 16 20 =
        DSU_messageType2buffer ControllerData \<and>
      drop 20 (DSU_generateMessage crc32_buf example_server ControllerData payload) = payload) \<and>
   caught (UDP_DefaultHandler crc32_buf id example_server query_identifier_3) = None \<and>
   sent (UDP_DefaultHandler crc32_buf id example_server query_mode_9) = [] \<and>
   caught (UDP_DefaultHandler crc32_buf id example_server query_mode_9) = None"
  using ControllerData_query [OF parse_query_slot_2 _ four_slots_example_server, of 2 id]
    ControllerData_query [OF parse_query_identifier_3 _ four_slots_example_server, of 3 id]
    ControllerData_query [OF parse_query_mode_9 _ four_slots_example_server, of 0 id]
  by (simp add: byte_at_def)

theorem ControllerData_query_counterexample:
  "DSU_parseMessage crc32_buf
     [0x44, 0x53, 0x55, 0x43, 0xE9, 0x03, 0x0C, 0x00, 0x4F, 0x6D, 0x39, 0xED,
      0x11, 0x22, 0x33, 0x44, 0x02, 0x00, 0x10, 0x00,
      0x01, 0x04, 0x00, 0x00, 0x00, 0x00, 0x00, 0x00] =
   ([0x44, 0x53, 0x55, 0x43, 0xE9, 0x03, 0x0C, 0x00, 0x00, 0x00, 0x00, 0x00,
     0x11, 0x22, 0x33, 0x44, 0x02, 0x00, 0x10, 0x00,
     0x01, 0x04, 0x00, 0x00, 0x00, 0x00, 0x00, 0x00],
    Inr \<lparr> header = \<lparr> dsuType = [0x44, 0x53, 0x55, 0x43], version = Some 1001,
                       packetLength = Some 12, CRC32 = ''4f6d39ed'',
                       senderID = Some 0x44332211 \<rparr>,
          messageType = ControllerData,
          message = [0x01, 0x04, 0x00, 0x00, 0x00, 0x00, 0x00, 0x00] \<rparr>) \<and>
   sent (UDP_DefaultHandler crc32_buf id
           (new_DSUServer [0xAA, 0xBB, 0xCC, 0xDD] :: 32 word DSUServer)
     [0x44, 0x53, 0x55, 0x43, 0xE9, 0x03, 0x0C, 0x00, 0x4F, 0x6D, 0x39, 0xED,
      0x11, 0x22, 0x33, 0x44, 0x02, 0x00, 0x10, 0x00,
      0x01, 0x04, 0x00, 0x00, 0x00, 0x00, 0x00, 0x00]) = []"
proof -
  have z: "zero_checksum query_slot_4 =
     [0x44, 0x53, 0x55, 0x43, 0xE9, 0x03, 0x0C, 0x00, 0x00, 0x00, 0x00, 0x00,
      0x11, 0x22, 0x33, 0x44, 0x02, 0x00, 0x10, 0x00,
      0x01, 0x04, 0x00, 0x00, 0x00, 0x00, 0x00, 0x00]"
    by (simp add: zero_checksum_def query_slot_4_def)
  have g: "DSU_getControllerState (new_DSUServer [0xAA, 0xBB, 0xCC, 0xDD] :: 32 word DSUServer) 4 = None"
    by (simp add: DSU_getControllerState_def array_get_def new_DSUServer_def)
  have "sent (UDP_DefaultHandler crc32_buf id
           (new_DSUServer [0xAA, 0xBB, 0xCC, 0xDD] :: 32 word DSUServer) query_slot_4) = []"
    unfolding handler_ControllerData [OF parse_query_slot_4, simplified]
    by (simp add: byte_at_def DSU_state2buffer_def g)
  with parse_query_slot_4 show ?thesis
    unfolding z by (simp add: query_slot_4_def)
qed

text \<open>
  C10. For every valid controller-data query that resolves, by either mode, to a slot
  index above 3, and a store of four states: the store has no state for that index,
  \<open>DSU_state2buffer\<close> throws, the handler catches the error and sends nothing, and the
  server is as it was.
\<close>

theorem ControllerData_query_out_of_range:
  assumes "DSU_parseMessage crc_buf msg = (msg', Inr m)"
    and "messageType m = ControllerData"
    and "four_slots this"
    and "byte_at (message m) 0 = Some 1 \<and> byte_at (message m) 1 = Some i \<or>
         byte_at (message m) 0 = Some 2 \<and> byte_at (message m) 7 = Some i"
    and "3 < i"
  shows "DSU_getControllerState this i = None \<and>
    DSU_state2buffer float_bits this i None = Inl TypeError \<and>
    sent (UDP_DefaultHandler crc_buf float_bits this msg) = [] \<and>
    caught (UDP_DefaultHandler crc_buf float_bits this msg) = Some TypeError \<and>
    server (UDP_DefaultHandler crc_buf float_bits this msg) = this"
proof -
  from assms(3) have "length (DATA_controllerStates this) = 4"
    by (simp add: four_slots_def)
  then have g: "DSU_getControllerState this i = None"
    using assms(5) by (rule four_slots_get_beyond)
  then have s: "DSU_state2buffer float_bits this i None = Inl TypeError"
    by (simp add: DSU_state2buffer_None)
  from assms(4) s g show ?thesis
    unfolding handler_ControllerData [OF assms(1,2)] by auto
qed

theorem ControllerData_query_out_of_range_witness:
  "DSU_getControllerState example_server 4 = None \<and>
   DSU_state2buffer id example_server 4 None = Inl TypeError \<and>
   sent (UDP_DefaultHandler crc32_buf id example_server query_slot_4) = [] \<and>
   caught (UDP_DefaultHandler crc32_buf id example_server query_slot_4) = Some TypeError \<and>
   server (UDP_DefaultHandler crc32_buf id example_server query_slot_4) = example_server"
  using ControllerData_query_out_of_range
    [OF parse_query_slot_4 _ four_slots_example_server, of 4 id]
  by (simp add: byte_at_def)

subsection \<open>Connected-controllers queries\<close>

lemma ConnectedControllers_loop_eq:
  "four_slots this \<Longrightarrow> slot \<le> 4 \<Longrightarrow>
    ConnectedControllers_loop crc_buf this body n slot out =
      (out @ map (ConnectedControllers_response crc_buf this body) [slot..<min 4 (nat n)],
       if 4 < n then Some TypeError else None)"
proof (induction crc_buf this body n slot out rule: ConnectedControllers_loop.induct)
  case (1 crc_buf this body n slot out)
  note four = \<open>four_slots this\<close> and slot = \<open>slot \<le> 4\<close>
  show ?case
  proof (cases "int slot < n")
    case False
    then have "[slot..<min 4 (nat n)] = []" by simp
    moreover from False slot have "\<not> 4 < n" by simp
    ultimately show ?thesis
      using False by (subst ConnectedControllers_loop.simps) simp
  next
    case True
    show ?thesis
    proof (cases "slot = 4")
      case s: True
      with four have "DSU_getControllerState this (int slot) = None"
        by (simp add: four_slots_def four_slots_get_beyond)
      moreover from s True have "4 < n" by simp
      ultimately show ?thesis
        using True s by (subst ConnectedControllers_loop.simps) simp
    next
      case False
      with slot have lt: "slot < 4" by simp
      with four_slots_get [OF four, of "int slot"] obtain state
        where g: "DSU_getControllerState this (int slot) = Some state" by auto
      from lt True have u: "[slot..<min 4 (nat n)] = slot # [slot + 1..<min 4 (nat n)]"
        by (simp add: upt_conv_Cons)
      from lt have "slot + 1 \<le> 4" by simp
      from "1.IH" [OF True g four this] True g show ?thesis
        by (subst ConnectedControllers_loop.simps)
          (simp add: u ConnectedControllers_response_def)
    qed
  qed
qed

lemma handler_ConnectedControllers:
  assumes "DSU_parseMessage crc_buf msg = (msg', Inr m)"
    and "messageType m = ConnectedControllers"
    and "four_slots this"
  shows "UDP_DefaultHandler crc_buf float_bits this msg =
     \<lparr> server = this, datagram = msg',
       sent = map (ConnectedControllers_response crc_buf this (message m))
                [0..<min 4 (nat (DSU_littleEndian2number (slice (message m) 0 4)))],
       caught = (if 4 < DSU_littleEndian2number (slice (message m) 0 4)
                 then Some TypeError else None) \<rparr>"
  using assms by (simp add: UDP_DefaultHandler_def Let_def ConnectedControllers_loop_eq)

text \<open>
  C2 has the handler answer a query for \<open>n\<close> slots with \<open>n\<close> frames, the one at
  position \<open>i\<close> carrying the summary of the requested slot with the connection flag of
  that slot. The lemma above gives what the handler sends: at most four frames, the one
  at position \<open>i\<close> with the flag of slot \<open>i\<close> of the store. Here is a query for the
  single slot 2, when slot 0 of the store is connected and slot 2 is not: the one frame
  sent carries the summary of slot 2 with the flag of slot 0, the connected summary, where
  the summary of slot 2 with its own flag is the disconnected one.
\<close>

theorem ConnectedControllers_query_flag:
  "sent (UDP_DefaultHandler crc32_buf id example_server query_connected_2) =
     [[0x44, 0x53, 0x55, 0x53, 0xE9, 0x03, 0x10, 0x00, 0x33, 0xF6, 0x30, 0x5E,
       0xAA, 0xBB, 0xCC, 0xDD, 0x01, 0x00, 0x10, 0x00,
       0x02, 0x02, 0x02, 0x01, 0xAA, 0xBB, 0xCC, 0xDD, 0x00, 0x00, 0x05, 0x00]] \<and>
   map_option connected (DSU_getControllerState example_server 0) = Some True \<and>
   map_option connected (DSU_getControllerState example_server 2) = Some False \<and>
   DSU_createControllerData example_server (Some 2) False =
     [0x02, 0x00, 0x00, 0x00, 0x00, 0x00, 0x00, 0x00, 0x00, 0x00, 0x00, 0x00]"
proof -
  have n: "DSU_littleEndian2number (slice [0x01, 0x00, 0x00, 0x00, 0x02] 0 4) = 1"
    by (simp add: DSU_littleEndian2number_eq slice_def)
  have i: "DATA_CONTROLLERID example_server = [0xAA, 0xBB, 0xCC, 0xDD]"
    by (simp add: example_server_eq)
  have g0: "DSU_getControllerState example_server 0 = Some (DSU_dummyState\<lparr>connected := True\<rparr>)"
    and g2: "DSU_getControllerState example_server 2 = Some DSU_dummyState"
    by (simp_all add: example_server_eq DSU_getControllerState_def array_get_def)
  have d: "DSU_createControllerData example_server (Some 2) True =
      [0x02, 0x02, 0x02, 0x01, 0xAA, 0xBB, 0xCC, 0xDD, 0x00, 0x00, 0x05, 0x00]"
    and d': "DSU_createControllerData example_server (Some 2) False =
      [0x02, 0x00, 0x00, 0x00, 0x00, 0x00, 0x00, 0x00, 0x00, 0x00, 0x00, 0x00]"
    by (simp_all add: DSU_createControllerData_layout i ToUint8_def numeral_eq_Suc)
  have crc: "crc32_buf [0x44, 0x53, 0x55, 0x53, 0xE9, 0x03, 0x10, 0x00, 0, 0, 0, 0,
       0xAA, 0xBB, 0xCC, 0xDD, 0x01, 0x00, 0x10, 0x00,
       0x02, 0x02, 0x02, 0x01, 0xAA, 0xBB, 0xCC, 0xDD, 0x00, 0x00, 0x05, 0x00] = 0x5E30F633"
    by (simp add: crc32_defs)
  have r: "DSU_generateMessage crc32_buf example_server ConnectedControllers
      [0x02, 0x02, 0x02, 0x01, 0xAA, 0xBB, 0xCC, 0xDD, 0x00, 0x00, 0x05, 0x00] =
      [0x44, 0x53, 0x55, 0x53, 0xE9, 0x03, 0x10, 0x00, 0x33, 0xF6, 0x30, 0x5E,
       0xAA, 0xBB, 0xCC, 0xDD, 0x01, 0x00, 0x10, 0x00,
       0x02, 0x02, 0x02, 0x01, 0xAA, 0xBB, 0xCC, 0xDD, 0x00, 0x00, 0x05, 0x00]"
    by (simp add: DSU_generateMessage_frame frame_def pad4_def i DSUS_def
        messageType2buffer_bytes number2buffer_2 crc word32_le_def)
  have "sent (UDP_DefaultHandler crc32_buf id example_server query_connected_2) =
      [DSU_generateMessage crc32_buf example_server ConnectedControllers
         (DSU_createControllerData example_server (Some 2) True)]"
    unfolding handler_ConnectedControllers
      [OF parse_query_connected_2 _ four_slots_example_server, simplified]
    by (simp add: n ConnectedControllers_response_def g0 byte_at_def)
  then show ?thesis
    by (simp add: d d' r g0 g2 DSU_dummyState_def)
qed

end
